theory Spec2Isabelle
  imports Main "HOL-Library.List_Lexorder" "HOL-Library.Multiset" "HOL-Library.Sublist"
begin

section \<open>JavaScript strings\<close>

text \<open>
  A JavaScript string is a sequence of UTF-16 code units. A code unit is modelled by its
  number, so every JavaScript string is a \<open>jsstring\<close> (with all entries below 65536), and
  the default \<open>Array.prototype.sort\<close>, which orders strings by their code units, is the
  lexicographic order of \<open>HOL-Library.List_Lexorder\<close> on these lists. Literals of the
  source are written \<open>js ''...''\<close>.
\<close>

type_synonym codeunit = nat
type_synonym jsstring = "codeunit list"

definition js :: "string \<Rightarrow> jsstring" where
  "js s = map of_char s"

text \<open>\<open>[a-zA-Z0-9_-]\<close>, the character class of \<open>mentionRegex\<close>.\<close>

definition isMentionChar :: "codeunit \<Rightarrow> bool" where
  "isMentionChar c =
     ((97 \<le> c \<and> c \<le> 122) \<or> (65 \<le> c \<and> c \<le> 90) \<or> (48 \<le> c \<and> c \<le> 57)
      \<or> c = 95 \<or> c = 45)"

text \<open>
  \<open>\s\<close> of a JavaScript regular expression, which is also the set \<open>String.prototype.trim\<close>
  removes: the WhiteSpace and LineTerminator code points of ECMAScript.
\<close>

definition isWhitespace :: "codeunit \<Rightarrow> bool" where
  "isWhitespace c =
     ((9 \<le> c \<and> c \<le> 13) \<or> c = 32 \<or> c = 160 \<or> c = 5760 \<or> (8192 \<le> c \<and> c \<le> 8202)
      \<or> c = 8232 \<or> c = 8233 \<or> c = 8239 \<or> c = 8287 \<or> c = 12288 \<or> c = 65279)"

definition isUpperCase :: "codeunit \<Rightarrow> bool" where
  "isUpperCase c = (65 \<le> c \<and> c \<le> 90)"

text \<open>
  \<open>String.prototype.toLowerCase\<close> on the code units \<open>mentionRegex\<close> can capture (all of
  them ASCII): \<open>A\<close>..\<open>Z\<close> move to \<open>a\<close>..\<open>z\<close>, every other one stays.
\<close>

definition toLowerCase :: "jsstring \<Rightarrow> jsstring" where
  "toLowerCase s = map (\<lambda>c. if isUpperCase c then c + 32 else c) s"

text \<open>\<open>Array.prototype.join\<close>.\<close>

fun join :: "jsstring \<Rightarrow> jsstring list \<Rightarrow> jsstring" where
  "join sep [] = []"
| "join sep [x] = x"
| "join sep (x # y # ys) = x @ sep @ join sep (y # ys)"

text \<open>
  \<open>[...new Set(repos)]\<close>: a Set keeps each value once, in the order of first insertion.
\<close>

fun setFrom :: "'a list \<Rightarrow> 'a list \<Rightarrow> 'a list" where
  "setFrom seen [] = seen"
| "setFrom seen (x # xs) = (if x \<in> set seen then setFrom seen xs else setFrom (seen @ [x]) xs)"

section \<open>Query parsing (lib/utils/query.ts)\<close>

record ParsedQuery =
  repos :: "jsstring list"
  query :: "jsstring"

text \<open>
  The \<open>exec\<close> loop over \<open>/@([a-zA-Z0-9_-]+)/g\<close>: the capture groups of the successive
  matches, left to right. A match starts at an \<open>@\<close> followed by a mention character and
  takes every mention character after it (the \<open>+\<close> is greedy); the search resumes at the
  end of the match.
\<close>

function mentionMatches :: "jsstring \<Rightarrow> jsstring list" where
  "mentionMatches [] = []"
| "mentionMatches [c] = []"
| "mentionMatches (c # d # cs) =
     (if c = 64 \<and> isMentionChar d
      then (d # takeWhile isMentionChar cs) # mentionMatches (dropWhile isMentionChar cs)
      else mentionMatches (d # cs))"
  by pat_completeness auto
termination
  by (relation "measure length") (auto simp: length_dropWhile_le less_Suc_eq_le le_SucI)

text \<open>\<open>input.replace(mentionRegex, '')\<close>: the same matches, each removed.\<close>

function stripMentions :: "jsstring \<Rightarrow> jsstring" where
  "stripMentions [] = []"
| "stripMentions [c] = [c]"
| "stripMentions (c # d # cs) =
     (if c = 64 \<and> isMentionChar d
      then stripMentions (dropWhile isMentionChar cs)
      else c # stripMentions (d # cs))"
  by pat_completeness auto
termination
  by (relation "measure length") (auto simp: length_dropWhile_le less_Suc_eq_le le_SucI)

text \<open>\<open>.replace(/\s+/g, ' ')\<close>: every maximal run of whitespace becomes one space.\<close>

function collapseWhitespace :: "jsstring \<Rightarrow> jsstring" where
  "collapseWhitespace [] = []"
| "collapseWhitespace (c # cs) =
     (if isWhitespace c
      then 32 # collapseWhitespace (dropWhile isWhitespace cs)
      else c # collapseWhitespace cs)"
  by pat_completeness auto
termination
  by (relation "measure length") (auto simp: length_dropWhile_le less_Suc_eq_le)

text \<open>\<open>String.prototype.trim\<close>.\<close>

definition trim :: "jsstring \<Rightarrow> jsstring" where
  "trim s = rev (dropWhile isWhitespace (rev (dropWhile isWhitespace s)))"

definition parseQuery :: "jsstring \<Rightarrow> ParsedQuery" where
  "parseQuery input =
     (let rs = map toLowerCase (mentionMatches input);
          q = trim (collapseWhitespace (stripMentions input));
          uniqueRepos = sort (setFrom [] rs)
      in \<lparr> repos = uniqueRepos, query = q \<rparr>)"

datatype jsError = Error jsstring

text \<open>\<open>getWorkspaceKey\<close>: the \<open>throw\<close> is the \<open>Inl\<close> result.\<close>

definition getWorkspaceKey :: "jsstring list \<Rightarrow> jsError + jsstring" where
  "getWorkspaceKey rs =
     (if length rs = 0
      then Inl (Error (js ''Cannot generate workspace key from empty repos list''))
      else Inr (join (js ''+'') (sort rs)))"

text \<open>
  A string has a match of \<open>/@[a-zA-Z0-9_-]+/\<close> exactly when some \<open>@\<close> in it is directly
  followed by a mention character.
\<close>

fun hasMention :: "jsstring \<Rightarrow> bool" where
  "hasMention [] = False"
| "hasMention [c] = False"
| "hasMention (c # d # cs) = ((c = 64 \<and> isMentionChar d) \<or> hasMention (d # cs))"


text \<open>
  Whitespace runs are collapsed: every whitespace character is a single space that no
  whitespace follows directly.
\<close>

fun spacesCollapsed :: "jsstring \<Rightarrow> bool" where
  "spacesCollapsed [] = True"
| "spacesCollapsed [c] = (\<not> isWhitespace c \<or> c = 32)"
| "spacesCollapsed (c # d # cs) =
     ((\<not> isWhitespace c \<or> (c = 32 \<and> \<not> isWhitespace d)) \<and> spacesCollapsed (d # cs))"

section \<open>Errors, environment and world state\<close>

text \<open>
  The value a promise rejects with: an \<open>Error\<close> object with its \<open>stack\<close> (\<open>None\<close> when
  the property is undefined), or a value that is not an \<open>Error\<close>.
\<close>

datatype thrown = ErrorObject "jsstring option" | NonError

text \<open>
  The \<open>cause\<close> field of an \<open>OcError\<close>: \<open>null\<close>, the \<open>UnknownException\<close> in which
  \<open>Effect.tryPromise\<close> wraps a rejection, a caught rejection itself, the \<open>error\<close> of a
  \<open>session.create\<close> response (kept as opaque text), or the \<open>error\<close> property of a
  \<open>session.error\<close> event (\<open>None\<close> when undefined; the inner option is its \<open>name\<close>).
\<close>

datatype cause =
    NoCause
  | UnknownException thrown
  | Rejection thrown
  | ResponseError jsstring
  | EventError "jsstring option option"

text \<open>
  The failures of the effects: the tagged errors of the source, \<open>Defect\<close> for an
  exception thrown inside an effect, and \<open>CollaboratorError\<close> for a failure raised by a
  helper that is not among the sources (git, the file system, the configuration).
\<close>

datatype error =
    ConfigError jsstring
  | OcError jsstring cause
  | InvalidProviderError jsstring "jsstring list"
  | ProviderNotConnectedError jsstring "jsstring list"
  | InvalidModelError jsstring jsstring "jsstring list"
  | Defect jsError
  | CollaboratorError jsstring

record RepoConfig =
  rcName :: jsstring
  rcUrl :: jsstring
  rcBranch :: jsstring
  rcSpecialNotes :: "jsstring option"
  rcSearchPath :: "jsstring option"

record WorkspaceRepo =
  wrName :: jsstring
  wrRelativePath :: jsstring
  wrSpecialNotes :: "jsstring option"

record WorkspaceInfo =
  workspacePath :: jsstring
  wsRepos :: "WorkspaceRepo list"

text \<open>A registered git worktree: the arguments \<open>createWorktree\<close> succeeded with.\<close>

record Worktree =
  repoDir :: jsstring
  targetDir :: jsstring
  ref :: jsstring

text \<open>The answer of the agent's \<open>provider.list()\<close>.\<close>

record ProviderInfo =
  providerId :: jsstring
  modelIds :: "jsstring list"

datatype providerListResult =
    ListRejected
  | ListNoData
  | ListData "ProviderInfo list" "jsstring list"

datatype sessionCreateResult = SessionError jsstring | SessionData jsstring

text \<open>An event of the agent: its \<open>type\<close>, and of its \<open>properties\<close> the \<open>sessionID\<close>
  (\<open>None\<close> when \<open>properties\<close> has no such key) and the \<open>error\<close> (its \<open>name\<close> inside).\<close>

record OcEvent =
  evType :: jsstring
  evSessionID :: "jsstring option"
  evError :: "jsstring option option"

text \<open>How an asynchronous sequence ends, as far as it has been observed: it has
  completed, it has failed, or it has produced a prefix and is still open.\<close>

datatype 'e ending = Done | Failure 'e | Pending

type_synonym ('a, 'e) stream = "'a list \<times> 'e ending"

text \<open>
  Everything outside the functions under study, as they find it: the configuration
  (\<open>ConfigService\<close>), the outcome of each git and file-system helper, and the answers of
  the agent backend. An outcome \<open>None\<close> of a helper is success, \<open>Some e\<close> is the failure
  \<open>e\<close> of its effect.
\<close>

record env =
  workspacesDir :: jsstring
  reposDir :: jsstring
  provider :: jsstring
  model :: jsstring
  registry :: "jsstring \<Rightarrow> error + RepoConfig"
  fetchError :: "jsstring \<Rightarrow> error option"
  mkdirError :: "jsstring \<Rightarrow> error option"
  worktreeError :: "jsstring \<Rightarrow> error option"
  boot :: "nat \<Rightarrow> thrown option"
  providerList :: providerListResult
  sessionCreate :: sessionCreateResult
  subscribe :: "thrown + (OcEvent, thrown) stream"
  promptFailure :: "(nat \<times> jsstring \<times> thrown) option"

text \<open>
  The state the functions act on: the directories on disk, the registered worktrees,
  the target directories \<open>createWorktree\<close> has been invoked for, the ports
  \<open>createOpencode\<close> has been invoked with, the ports of the servers that run, the ports
  \<open>server.close()\<close> has been called for, and the number of \<open>session.create\<close> calls.
\<close>

record world =
  dirs :: "jsstring list"
  worktrees :: "Worktree list"
  worktreeCalls :: "jsstring list"
  portsTried :: "nat list"
  running :: "nat list"
  closeCalls :: "nat list"
  sessionCalls :: nat

section \<open>Collaborators of the workspace service\<close>

text \<open>\<open>pathService.join\<close> of a directory and one plain path segment.\<close>

definition pathJoin :: "jsstring \<Rightarrow> jsstring \<Rightarrow> jsstring" where
  "pathJoin a b = a @ js ''/'' @ b"

text \<open>
  Modelled from the spec: \<open>services/config.ts\<close> is not among the sources. \<open>getRepo\<close>
  looks the name up in the registry and fails for an unknown name; it does not touch
  the disk.
\<close>

definition getRepo :: "env \<Rightarrow> jsstring \<Rightarrow> error + RepoConfig" where
  "getRepo e n = registry e n"

text \<open>
  Modelled from the spec: \<open>services/config.ts\<close> is not among the sources.
  \<open>cloneOrUpdateOneRepoLocally\<close> clones into \<open><reposDir>/<name>\<close> when that directory
  is absent and fetches otherwise; it writes nowhere else.
\<close>

definition cloneOrUpdateOneRepoLocally :: "env \<Rightarrow> jsstring \<Rightarrow> world \<Rightarrow> (error + unit) \<times> world" where
  "cloneOrUpdateOneRepoLocally e n w =
     (case fetchError e n of
        Some err \<Rightarrow> (Inl err, w)
      | None \<Rightarrow> (Inr (), w\<lparr> dirs := List.insert (pathJoin (reposDir e) n) (dirs w) \<rparr>))"

text \<open>Modelled from the spec: \<open>lib/utils/files.ts\<close> is not among the sources.\<close>

definition directoryExists :: "jsstring \<Rightarrow> world \<Rightarrow> bool" where
  "directoryExists p w = (p \<in> set (dirs w))"

text \<open>Modelled from the spec: \<open>lib/utils/files.ts\<close> is not among the sources.\<close>

definition ensureDirectory :: "env \<Rightarrow> jsstring \<Rightarrow> world \<Rightarrow> (error + unit) \<times> world" where
  "ensureDirectory e p w =
     (case mkdirError e p of
        Some err \<Rightarrow> (Inl err, w)
      | None \<Rightarrow> (Inr (), w\<lparr> dirs := List.insert p (dirs w) \<rparr>))"

text \<open>
  Modelled from the spec: \<open>lib/utils/git.ts\<close> is not among the sources. \<open>createWorktree\<close>
  runs \<open>git worktree add\<close>: on success the target directory exists and is a registered
  worktree of the central clone at the given ref; on failure nothing has changed.
\<close>

definition createWorktree :: "env \<Rightarrow> Worktree \<Rightarrow> world \<Rightarrow> (error + unit) \<times> world" where
  "createWorktree e a w =
     (let w' = w\<lparr> worktreeCalls := worktreeCalls w @ [targetDir a] \<rparr>
      in case worktreeError e (targetDir a) of
           Some err \<Rightarrow> (Inl err, w')
         | None \<Rightarrow> (Inr (), w'\<lparr> dirs := List.insert (targetDir a) (dirs w'),
                                 worktrees := worktrees w' @ [a] \<rparr>))"

section \<open>The workspace service (services/workspace.ts)\<close>

text \<open>The loop \<open>for (const repoName of sortedRepos) repoConfigs.push(yield* config.getRepo(repoName))\<close>.\<close>

fun getRepoConfigs :: "env \<Rightarrow> jsstring list \<Rightarrow> error + RepoConfig list" where
  "getRepoConfigs e [] = Inr []"
| "getRepoConfigs e (n # ns) =
     (case getRepo e n of
        Inl err \<Rightarrow> Inl err
      | Inr r \<Rightarrow> (case getRepoConfigs e ns of Inl err \<Rightarrow> Inl err | Inr rs \<Rightarrow> Inr (r # rs)))"

text \<open>The loop that pulls or clones every central repository.\<close>

fun cloneAll :: "env \<Rightarrow> jsstring list \<Rightarrow> world \<Rightarrow> (error + unit) \<times> world" where
  "cloneAll e [] w = (Inr (), w)"
| "cloneAll e (n # ns) w =
     (case cloneOrUpdateOneRepoLocally e n w of
        (Inl err, w') \<Rightarrow> (Inl err, w')
      | (Inr u, w') \<Rightarrow> cloneAll e ns w')"

definition worktreeFor :: "env \<Rightarrow> jsstring \<Rightarrow> RepoConfig \<Rightarrow> Worktree" where
  "worktreeFor e wp r =
     \<lparr> repoDir = pathJoin (reposDir e) (rcName r),
       targetDir = pathJoin wp (rcName r),
       ref = js ''origin/'' @ rcBranch r \<rparr>"

text \<open>The loop \<open>for (const repo of repoConfigs) yield* createWorktree(...)\<close>: the first
  failure ends it, and nothing follows the failure.\<close>

fun createWorktrees :: "env \<Rightarrow> jsstring \<Rightarrow> RepoConfig list \<Rightarrow> world \<Rightarrow> (error + unit) \<times> world" where
  "createWorktrees e wp [] w = (Inr (), w)"
| "createWorktrees e wp (r # rs) w =
     (case createWorktree e (worktreeFor e wp r) w of
        (Inl err, w') \<Rightarrow> (Inl err, w')
      | (Inr u, w') \<Rightarrow> createWorktrees e wp rs w')"

text \<open>\<open>if (repo.searchPath)\<close> is false for an undefined and for an empty search path.\<close>

definition workspaceRepo :: "RepoConfig \<Rightarrow> WorkspaceRepo" where
  "workspaceRepo r =
     \<lparr> wrName = rcName r,
       wrRelativePath =
         (case rcSearchPath r of
            None \<Rightarrow> rcName r
          | Some p \<Rightarrow> (if p = [] then rcName r else pathJoin (rcName r) p)),
       wrSpecialNotes = rcSpecialNotes r \<rparr>"

definition ensureWorkspace :: "env \<Rightarrow> jsstring list \<Rightarrow> world \<Rightarrow> (error + WorkspaceInfo) \<times> world" where
  "ensureWorkspace e repoNames w =
     (if length repoNames = 0
      then (Inl (ConfigError (js ''At least one repo must be specified'')), w)
      else
        let sortedRepos = sort repoNames in
        case getWorkspaceKey sortedRepos of
          Inl thrownError \<Rightarrow> (Inl (Defect thrownError), w)
        | Inr key \<Rightarrow>
            let wp = pathJoin (workspacesDir e) key in
            (case getRepoConfigs e sortedRepos of
               Inl err \<Rightarrow> (Inl err, w)
             | Inr repoConfigs \<Rightarrow>
                 (case cloneAll e sortedRepos w of
                    (Inl err, w1) \<Rightarrow> (Inl err, w1)
                  | (Inr u, w1) \<Rightarrow>
                      let info = \<lparr> workspacePath = wp, wsRepos = map workspaceRepo repoConfigs \<rparr> in
                      if \<not> directoryExists wp w1
                      then
                        (case ensureDirectory e wp w1 of
                           (Inl err, w2) \<Rightarrow> (Inl err, w2)
                         | (Inr u2, w2) \<Rightarrow>
                             (case createWorktrees e wp repoConfigs w2 of
                                (Inl err, w3) \<Rightarrow> (Inl err, w3)
                              | (Inr u3, w3) \<Rightarrow> (Inr info, w3)))
                      else (Inr info, w1))))"

section \<open>Provider validation (lib/utils/validation.ts)\<close>

text \<open>\<open>all.find((p) => p.id === providerId)\<close>.\<close>

fun findProvider :: "jsstring \<Rightarrow> ProviderInfo list \<Rightarrow> ProviderInfo option" where
  "findProvider pid [] = None"
| "findProvider pid (p # ps) = (if providerId p = pid then Some p else findProvider pid ps)"

text \<open>
  \<open>Effect.option\<close> turns a rejected \<open>provider.list()\<close> into \<open>None\<close>; a response without
  \<open>data\<close> is skipped in the same way. Validation changes no state.
\<close>

definition validateProviderAndModel :: "env \<Rightarrow> jsstring \<Rightarrow> jsstring \<Rightarrow> error + unit" where
  "validateProviderAndModel e pid mid =
     (case providerList e of
        ListRejected \<Rightarrow> Inr ()
      | ListNoData \<Rightarrow> Inr ()
      | ListData all connected \<Rightarrow>
          (case findProvider pid all of
             None \<Rightarrow> Inl (InvalidProviderError pid (map providerId all))
           | Some p \<Rightarrow>
               if pid \<notin> set connected
               then Inl (ProviderNotConnectedError pid connected)
               else if mid \<notin> set (modelIds p)
               then Inl (InvalidModelError pid mid (modelIds p))
               else Inr ()))"

section \<open>The agent service (services/oc.ts)\<close>

text \<open>\<open>String.prototype.includes\<close>.\<close>

fun jsIncludes :: "jsstring \<Rightarrow> jsstring \<Rightarrow> bool" where
  "jsIncludes [] sub = (sub = [])"
| "jsIncludes (c # cs) sub = (prefix sub (c # cs) \<or> jsIncludes cs sub)"

text \<open>\<open>err.cause instanceof Error && err.cause.stack?.includes('port')\<close>, where \<open>err.cause\<close> is
  the value \<open>createOpencode\<close> rejected with.\<close>

definition mentionsPort :: "thrown \<Rightarrow> bool" where
  "mentionsPort t =
     (case t of
        ErrorObject (Some stack) \<Rightarrow> jsIncludes stack (js ''port'')
      | ErrorObject None \<Rightarrow> False
      | NonError \<Rightarrow> False)"

definition maxInstances :: nat where
  "maxInstances = 30"

record OpencodeClient =
  clientPort :: nat
  clientDirectory :: jsstring

text \<open>A server handle is identified by the port its server is bound to.\<close>

record OpencodeInstance =
  client :: OpencodeClient
  server :: nat

text \<open>\<open>createOpencode({port, config})\<close>: the attempt is recorded; it rejects with
  \<open>boot e port = Some t\<close> or starts a server on the port.\<close>

definition createOpencode :: "env \<Rightarrow> nat \<Rightarrow> world \<Rightarrow> (thrown + nat) \<times> world" where
  "createOpencode e port w =
     (let w' = w\<lparr> portsTried := portsTried w @ [port] \<rparr>
      in case boot e port of
           Some t \<Rightarrow> (Inl t, w')
         | None \<Rightarrow> (Inr port, w'\<lparr> running := running w' @ [port] \<rparr>))"

text \<open>The \<open>while (portOffset < maxInstances)\<close> loop of \<open>getOpencodeInstanceForWorkspace\<close>,
  from the current \<open>portOffset\<close>.\<close>

function portLoop :: "env \<Rightarrow> WorkspaceInfo \<Rightarrow> nat \<Rightarrow> world \<Rightarrow> (error + OpencodeInstance) \<times> world" where
  "portLoop e workspaceInfo portOffset w =
     (if portOffset < maxInstances
      then
        (case createOpencode e (3420 + portOffset) w of
           (Inl t, w') \<Rightarrow>
             if mentionsPort t
             then portLoop e workspaceInfo (portOffset + 1) w'
             else (Inl (OcError (js ''FAILED TO CREATE OPENCODE CLIENT'') (UnknownException t)), w')
         | (Inr srv, w') \<Rightarrow>
             (Inr \<lparr> client = \<lparr> clientPort = 3420 + portOffset,
                               clientDirectory = workspacePath workspaceInfo \<rparr>,
                    server = srv \<rparr>, w'))
      else (Inl (OcError (js ''FAILED TO CREATE OPENCODE CLIENT - all ports exhausted'') NoCause), w))"
  by pat_completeness auto
termination
  by (relation "measure (\<lambda>(e, workspaceInfo, portOffset, w). maxInstances - portOffset)") auto

declare portLoop.simps [simp del]

definition getOpencodeInstanceForWorkspace :: "env \<Rightarrow> WorkspaceInfo \<Rightarrow> world \<Rightarrow> (error + OpencodeInstance) \<times> world" where
  "getOpencodeInstanceForWorkspace e workspaceInfo w = portLoop e workspaceInfo 0 w"

text \<open>\<open>server.close()\<close>.\<close>

definition closeServer :: "nat \<Rightarrow> world \<Rightarrow> world" where
  "closeServer srv w =
     w\<lparr> running := removeAll srv (running w), closeCalls := closeCalls w @ [srv] \<rparr>"

text \<open>\<open>client.session.create()\<close>.\<close>

definition createAgentSession :: "env \<Rightarrow> world \<Rightarrow> sessionCreateResult \<times> world" where
  "createAgentSession e w = (sessionCreate e, w\<lparr> sessionCalls := sessionCalls w + 1 \<rparr>)"

record SessionState =
  ssClient :: OpencodeClient
  ssServer :: nat
  ssSessionID :: jsstring
  ssWorkspacePath :: jsstring
  ssRepos :: "jsstring list"

text \<open>
  \<open>createSession\<close>. The configuration built by \<open>getWorkspaceOpenCodeConfig\<close> is only
  handed on to \<open>createOpencode\<close> and is left out.
\<close>

definition createSession :: "env \<Rightarrow> jsstring list \<Rightarrow> world \<Rightarrow> (error + SessionState) \<times> world" where
  "createSession e rs w =
     (case ensureWorkspace e rs w of
        (Inl err, w1) \<Rightarrow> (Inl err, w1)
      | (Inr workspaceInfo, w1) \<Rightarrow>
          (case getOpencodeInstanceForWorkspace e workspaceInfo w1 of
             (Inl err, w2) \<Rightarrow> (Inl err, w2)
           | (Inr inst, w2) \<Rightarrow>
               (case validateProviderAndModel e (provider e) (model e) of
                  Inl err \<Rightarrow> (Inl err, w2)
                | Inr u \<Rightarrow>
                    (case createAgentSession e w2 of
                       (SessionError sessionErr, w3) \<Rightarrow>
                         (Inl (OcError (js ''FAILED TO START OPENCODE SESSION'') (ResponseError sessionErr)),
                          closeServer (server inst) w3)
                     | (SessionData sid, w3) \<Rightarrow>
                         (Inr \<lparr> ssClient = client inst, ssServer = server inst, ssSessionID = sid,
                                ssWorkspacePath = workspacePath workspaceInfo,
                                ssRepos = sort rs \<rparr>, w3)))))"

subsection \<open>Event streams\<close>

text \<open>\<open>Stream.fromAsyncIterable(iterable, onError)\<close>: a rejection of the iterable becomes the
  failure \<open>onError\<close> makes of it.\<close>

definition Stream_fromAsyncIterable :: "('a, thrown) stream \<Rightarrow> (thrown \<Rightarrow> error) \<Rightarrow> ('a, error) stream" where
  "Stream_fromAsyncIterable it onError =
     (case it of (xs, ex) \<Rightarrow>
        (xs, case ex of Done \<Rightarrow> Done | Failure t \<Rightarrow> Failure (onError t) | Pending \<Rightarrow> Pending))"

definition Stream_filter :: "('a \<Rightarrow> bool) \<Rightarrow> ('a, 'e) stream \<Rightarrow> ('a, 'e) stream" where
  "Stream_filter p s = (case s of (xs, ex) \<Rightarrow> (filter p xs, ex))"

text \<open>
  \<open>Stream.takeUntil(predicate)\<close> of the effect library: the elements before the first one
  that satisfies the predicate, then that element, then the stream completes. Without
  such an element the stream is passed on as it is.
\<close>

definition Stream_takeUntil :: "('a \<Rightarrow> bool) \<Rightarrow> ('a, 'e) stream \<Rightarrow> ('a, 'e) stream" where
  "Stream_takeUntil p s =
     (case s of (xs, ex) \<Rightarrow>
        (let taken = takeWhile (\<lambda>a. \<not> p a) xs;
             lst = take 1 (drop (length taken) xs)
         in if lst = [] then (taken, ex) else (taken @ lst, Done)))"

text \<open>\<open>Stream.mapEffect(f)\<close>: the first element on which the effect fails ends the stream
  with that failure.\<close>

fun mapEffectList :: "('a \<Rightarrow> 'e + 'b) \<Rightarrow> 'a list \<Rightarrow> 'e ending \<Rightarrow> ('b, 'e) stream" where
  "mapEffectList f [] ex = ([], ex)"
| "mapEffectList f (x # xs) ex =
     (case f x of
        Inl err \<Rightarrow> ([], Failure err)
      | Inr y \<Rightarrow> (case mapEffectList f xs ex of (ys, ex') \<Rightarrow> (y # ys, ex')))"

definition Stream_mapEffect :: "('a \<Rightarrow> 'e + 'b) \<Rightarrow> ('a, 'e) stream \<Rightarrow> ('b, 'e) stream" where
  "Stream_mapEffect f s = (case s of (xs, ex) \<Rightarrow> mapEffectList f xs ex)"

text \<open>
  \<open>Stream.interruptWhen(Deferred.await(errorDeferred))\<close>: when the deferred fails with
  \<open>err\<close> after \<open>n\<close> elements have been delivered and the stream has not ended by then, the
  stream ends there with \<open>err\<close>.
\<close>

definition Stream_interruptWhen :: "(nat \<times> 'e) option \<Rightarrow> ('a, 'e) stream \<Rightarrow> ('a, 'e) stream" where
  "Stream_interruptWhen d s =
     (case s of (xs, ex) \<Rightarrow>
        (case d of
           None \<Rightarrow> (xs, ex)
         | Some (n, err) \<Rightarrow>
             if n < length xs \<or> (n = length xs \<and> ex = Pending)
             then (take n xs, Failure err)
             else (xs, ex)))"

text \<open>The predicate of \<open>Stream.filter\<close> in \<open>streamSessionEvents\<close>.\<close>

definition forSession :: "jsstring \<Rightarrow> OcEvent \<Rightarrow> bool" where
  "forSession sessionID event =
     (case evSessionID event of None \<Rightarrow> True | Some s \<Rightarrow> s = sessionID)"

text \<open>The predicate of \<open>Stream.takeUntil\<close> in \<open>streamSessionEvents\<close>.\<close>

definition isIdleOf :: "jsstring \<Rightarrow> OcEvent \<Rightarrow> bool" where
  "isIdleOf sessionID event =
     (evType event = js ''session.idle'' \<and> evSessionID event = Some sessionID)"

definition streamSessionEvents :: "env \<Rightarrow> jsstring \<Rightarrow> error + (OcEvent, error) stream" where
  "streamSessionEvents e sessionID =
     (case subscribe e of
        Inl t \<Rightarrow> Inl (OcError (js ''Failed to subscribe to events'') (Rejection t))
      | Inr events \<Rightarrow>
          Inr (Stream_takeUntil (isIdleOf sessionID)
                (Stream_filter (forSession sessionID)
                  (Stream_fromAsyncIterable events
                    (\<lambda>t. OcError (js ''Event stream error'') (Rejection t))))))"

text \<open>The effect \<open>streamPrompt\<close> maps over the events: a \<open>session.error\<close> fails the stream.\<close>

definition failOnSessionError :: "OcEvent \<Rightarrow> error + OcEvent" where
  "failOnSessionError event =
     (if evType event = js ''session.error''
      then Inl (OcError
                 (case evError event of
                    Some (Some n) \<Rightarrow> n
                  | Some None \<Rightarrow> js ''Unknown session error''
                  | None \<Rightarrow> js ''Unknown session error'')
                 (EventError (evError event)))
      else Inr event)"

text \<open>
  \<open>streamPrompt\<close>. \<open>promptFailure e\<close> says whether and when the forked \<open>firePrompt\<close> fails
  the deferred: \<open>Some (n, text, t)\<close> when it does so with the rejection \<open>t\<close>, whose
  \<open>String(t)\<close> is \<open>text\<close>, after \<open>n\<close> events have been delivered. The \<open>cleanup\<close> that
  \<open>Stream.ensuring\<close> attaches emits nothing; it is kept beside the stream (the server
  it will close, \<open>None\<close> when no cleanup was given).
\<close>

record PromptStream =
  psEvents :: "(OcEvent, error) stream"
  psCleanup :: "nat option"

definition streamPrompt :: "env \<Rightarrow> jsstring \<Rightarrow> nat option \<Rightarrow> error + PromptStream" where
  "streamPrompt e sessionID cleanup =
     (case streamSessionEvents e sessionID of
        Inl err \<Rightarrow> Inl err
      | Inr eventStream \<Rightarrow>
          Inr \<lparr> psEvents =
                  Stream_interruptWhen
                    (case promptFailure e of
                       None \<Rightarrow> None
                     | Some (n, text, t) \<Rightarrow> Some (n, OcError text (Rejection t)))
                    (Stream_mapEffect failOnSessionError eventStream),
                psCleanup = cleanup \<rparr>)"

text \<open>\<open>askInSession\<close>: no cleanup, the session stays alive.\<close>

definition askInSession :: "env \<Rightarrow> SessionState \<Rightarrow> error + PromptStream" where
  "askInSession e session = streamPrompt e (ssSessionID session) None"

text \<open>
  \<open>askQuestion\<close>: the same start-up as \<open>createSession\<close>, then the prompt stream, whose
  cleanup closes the server.
\<close>

definition askQuestion :: "env \<Rightarrow> jsstring list \<Rightarrow> world \<Rightarrow> (error + PromptStream) \<times> world" where
  "askQuestion e rs w =
     (case ensureWorkspace e rs w of
        (Inl err, w1) \<Rightarrow> (Inl err, w1)
      | (Inr workspaceInfo, w1) \<Rightarrow>
          (case getOpencodeInstanceForWorkspace e workspaceInfo w1 of
             (Inl err, w2) \<Rightarrow> (Inl err, w2)
           | (Inr inst, w2) \<Rightarrow>
               (case validateProviderAndModel e (provider e) (model e) of
                  Inl err \<Rightarrow> (Inl err, w2)
                | Inr u \<Rightarrow>
                    (case createAgentSession e w2 of
                       (SessionError sessionErr, w3) \<Rightarrow>
                         (Inl (OcError (js ''FAILED TO START OPENCODE SESSION'') (ResponseError sessionErr)),
                          closeServer (server inst) w3)
                     | (SessionData sid, w3) \<Rightarrow>
                         (case streamPrompt e sid (Some (server inst)) of
                            Inl err \<Rightarrow> (Inl err, w3)
                          | Inr s \<Rightarrow> (Inr s, w3))))))"

section \<open>Concrete environments\<close>

text \<open>Nothing on disk, no server, no session.\<close>

definition emptyWorld :: world where
  "emptyWorld = \<lparr> dirs = [], worktrees = [], worktreeCalls = [], portsTried = [],
                  running = [], closeCalls = [], sessionCalls = 0 \<rparr>"

text \<open>A registered repository that tracks \<open>main\<close>.\<close>

definition demoRepo :: "jsstring \<Rightarrow> RepoConfig" where
  "demoRepo n = \<lparr> rcName = n, rcUrl = js ''https://example.org/'' @ n, rcBranch = js ''main'',
                  rcSpecialNotes = None, rcSearchPath = None \<rparr>"

text \<open>Two registered repositories, every helper succeeds, ports 3420 and 3421 are held by other processes, and the provider listing cannot be fetched.\<close>

definition demoEnv :: env where
  "demoEnv =
     \<lparr> workspacesDir = js ''ws'', reposDir = js ''repos'',
       provider = js ''anthropic'', model = js ''sonnet'',
       registry = (\<lambda>n. if n = js ''svelte'' \<or> n = js ''daytona'' then Inr (demoRepo n)
                        else Inl (ConfigError (js ''unknown repo''))),
       fetchError = (\<lambda>n. None),
       mkdirError = (\<lambda>p. None),
       worktreeError = (\<lambda>p. None),
       boot = (\<lambda>port. if port < 3422
                        then Some (ErrorObject (Some (js ''Error: Failed to start server on port'')))
                        else None),
       providerList = ListRejected,
       sessionCreate = SessionData (js ''ses_1''),
       subscribe = Inr ([], Pending),
       promptFailure = None \<rparr>"

text \<open>As \<open>demoEnv\<close>, but \<open>git worktree add\<close> fails for the worktree of \<open>svelte\<close>.\<close>

definition brokenGitEnv :: env where
  "brokenGitEnv =
     demoEnv\<lparr> worktreeError :=
       (\<lambda>p. if p = js ''ws/daytona+svelte/svelte''
            then Some (CollaboratorError (js ''git worktree add failed'')) else None) \<rparr>"

text \<open>As \<open>demoEnv\<close>, but every port is held by another process.\<close>

definition allBusyEnv :: env where
  "allBusyEnv =
     demoEnv\<lparr> boot := (\<lambda>port. Some (ErrorObject (Some (js ''Error: Failed to start server on port'')))) \<rparr>"

text \<open>As \<open>demoEnv\<close>, but port 3420 is held by another process and the boot on port
  3421 is rejected with a value that is not an \<open>Error\<close>.\<close>

definition brokenBootEnv :: env where
  "brokenBootEnv =
     demoEnv\<lparr> boot := (\<lambda>port. if port < 3421
                               then Some (ErrorObject (Some (js ''Error: Failed to start server on port'')))
                               else Some NonError) \<rparr>"

text \<open>As \<open>demoEnv\<close>, but every port is free and the agent lists only the provider \<open>openai\<close>, while the configured one is \<open>anthropic\<close>.\<close>

definition otherProviderEnv :: env where
  "otherProviderEnv =
     demoEnv\<lparr> boot := (\<lambda>port. None),
              providerList := ListData [\<lparr> providerId = js ''openai'', modelIds = [js ''gpt''] \<rparr>]
                                       [js ''openai''] \<rparr>"

text \<open>Events of two sessions on the global event stream.\<close>

definition demoEvents :: "OcEvent list" where
  "demoEvents =
     [\<lparr> evType = js ''message.part.updated'', evSessionID = None, evError = None \<rparr>,
      \<lparr> evType = js ''session.idle'', evSessionID = Some (js ''ses_2''), evError = None \<rparr>,
      \<lparr> evType = js ''session.idle'', evSessionID = Some (js ''ses_1''), evError = None \<rparr>,
      \<lparr> evType = js ''server.heartbeat'', evSessionID = None, evError = None \<rparr>]"

text \<open>As \<open>demoEnv\<close>, with \<open>demoEvents\<close> on the event stream, which stays open.\<close>

definition streamEnv :: env where
  "streamEnv = demoEnv\<lparr> subscribe := Inr (demoEvents, Pending) \<rparr>"


section \<open>Properties of the query parser\<close>

subsection \<open>Mentions never survive in the cleaned query\<close>

lemma hasMention_Cons:
  "hasMention (c # r) = ((c = 64 \<and> r \<noteq> [] \<and> isMentionChar (hd r)) \<or> hasMention r)"
  by (cases r) auto

text \<open>
  What is left after a removed mention never starts with a mention character: the match
  was greedy, and a mention that follows directly is removed as well.
\<close>

lemma hd_stripMentions:
  "t = [] \<or> \<not> isMentionChar (hd t) \<Longrightarrow>
   stripMentions t = [] \<or> \<not> isMentionChar (hd (stripMentions t))"
proof (induction t rule: stripMentions.induct)
  case 1 then show ?case by simp
next
  case (2 c) then show ?case by simp
next
  case (3 c d cs)
  show ?case
  proof (cases "c = 64 \<and> isMentionChar d")
    case True
    have "dropWhile isMentionChar cs = [] \<or> \<not> isMentionChar (hd (dropWhile isMentionChar cs))"
      by (cases "dropWhile isMentionChar cs = []") (auto simp: hd_dropWhile)
    with 3(1)[OF True] True show ?thesis by simp
  next
    case False
    with 3(3) show ?thesis by auto
  qed
qed

lemma stripMentions_no_mention: "\<not> hasMention (stripMentions s)"
proof (induction s rule: stripMentions.induct)
  case 1 then show ?case by simp
next
  case (2 c) then show ?case by simp
next
  case (3 c d cs)
  show ?case
  proof (cases "c = 64 \<and> isMentionChar d")
    case True
    with 3(1) show ?thesis by simp
  next
    case False
    have h: "stripMentions (d # cs) = [] \<or> \<not> isMentionChar (hd (stripMentions (d # cs)))"
      if "c = 64"
      using hd_stripMentions[of "d # cs"] False that by simp
    from False 3(2) h show ?thesis by (auto simp: hasMention_Cons)
  qed
qed

lemma hasMention_suffix: "hasMention ys \<Longrightarrow> hasMention (xs @ ys)"
  by (induction xs) (auto simp: hasMention_Cons)

lemma hasMention_at: "isMentionChar d \<Longrightarrow> hasMention (pre @ 64 # d # suf)"
  by (rule hasMention_suffix) simp

lemma hasMention_split:
  "hasMention s \<Longrightarrow> \<exists>pre d suf. s = pre @ 64 # d # suf \<and> isMentionChar d"
proof (induction s rule: hasMention.induct)
  case 1 then show ?case by simp
next
  case (2 c) then show ?case by simp
next
  case (3 c d cs)
  show ?case
  proof (cases "c = 64 \<and> isMentionChar d")
    case True
    then have "c # d # cs = [] @ 64 # d # cs \<and> isMentionChar d" by simp
    then show ?thesis by blast
  next
    case False
    with 3 obtain pre e suf where "d # cs = pre @ 64 # e # suf" "isMentionChar e" by auto
    then have "c # d # cs = (c # pre) @ 64 # e # suf \<and> isMentionChar e" by simp
    then show ?thesis by blast
  qed
qed

lemma hasMention_prefix: "hasMention xs \<Longrightarrow> hasMention (xs @ ys)"
proof -
  assume "hasMention xs"
  then obtain pre d suf where "xs = pre @ 64 # d # suf" "isMentionChar d"
    using hasMention_split by blast
  then have "xs @ ys = pre @ 64 # d # (suf @ ys)" by simp
  with \<open>isMentionChar d\<close> show ?thesis using hasMention_at by metis
qed

lemma hasMention_dropWhile: "hasMention (dropWhile P s) \<Longrightarrow> hasMention s"
  using hasMention_suffix[of "dropWhile P s" "takeWhile P s"] by simp

lemma hasMention_trim: "hasMention (trim s) \<Longrightarrow> hasMention s"
proof -
  assume a: "hasMention (trim s)"
  let ?t = "dropWhile isWhitespace s"
  have "rev (takeWhile isWhitespace (rev ?t) @ dropWhile isWhitespace (rev ?t)) = ?t"
    by simp
  then have "?t = trim s @ rev (takeWhile isWhitespace (rev ?t))"
    unfolding trim_def rev_append by simp
  with a have "hasMention ?t" using hasMention_prefix by metis
  then show ?thesis by (rule hasMention_dropWhile)
qed

lemma collapseWhitespace_Nil: "(collapseWhitespace s = []) = (s = [])"
  by (cases s) auto

lemma hd_collapseWhitespace:
  "s \<noteq> [] \<Longrightarrow> hd (collapseWhitespace s) = (if isWhitespace (hd s) then 32 else hd s)"
  by (cases s) auto

lemma space_not_mention: "\<not> isMentionChar 32"
  by (simp add: isMentionChar_def)

lemma hasMention_collapseWhitespace: "hasMention (collapseWhitespace s) \<Longrightarrow> hasMention s"
proof (induction s rule: collapseWhitespace.induct)
  case 1 then show ?case by simp
next
  case (2 c cs)
  show ?case
  proof (cases "isWhitespace c")
    case True
    with 2(3) have "hasMention (collapseWhitespace (dropWhile isWhitespace cs))"
      by (simp add: hasMention_Cons)
    with 2(1)[OF True] have "hasMention (dropWhile isWhitespace cs)" by simp
    then have "hasMention cs" by (rule hasMention_dropWhile)
    then show ?thesis by (simp add: hasMention_Cons)
  next
    case False
    with 2(3) have "(c = 64 \<and> cs \<noteq> [] \<and> isMentionChar (hd (collapseWhitespace cs)))
        \<or> hasMention (collapseWhitespace cs)"
      by (simp add: hasMention_Cons collapseWhitespace_Nil)
    then show ?thesis
    proof
      assume h: "c = 64 \<and> cs \<noteq> [] \<and> isMentionChar (hd (collapseWhitespace cs))"
      then have "isMentionChar (hd cs)"
        by (auto simp: hd_collapseWhitespace space_not_mention split: if_splits)
      with h show ?thesis by (simp add: hasMention_Cons)
    next
      assume "hasMention (collapseWhitespace cs)"
      with 2(2)[OF False] show ?thesis by (simp add: hasMention_Cons)
    qed
  qed
qed

subsection \<open>Whitespace in the cleaned query\<close>

lemma spacesCollapsed_Cons:
  "spacesCollapsed (c # r) =
     ((\<not> isWhitespace c \<or> (c = 32 \<and> (r = [] \<or> \<not> isWhitespace (hd r)))) \<and> spacesCollapsed r)"
  by (cases r) auto

lemma hd_collapse_not_ws:
  "s \<noteq> [] \<Longrightarrow> \<not> isWhitespace (hd s) \<Longrightarrow> \<not> isWhitespace (hd (collapseWhitespace s))"
  by (cases s) auto

lemma spacesCollapsed_collapseWhitespace: "spacesCollapsed (collapseWhitespace s)"
proof (induction s rule: collapseWhitespace.induct)
  case 1 then show ?case by simp
next
  case (2 c cs)
  show ?case
  proof (cases "isWhitespace c")
    case True
    let ?r = "dropWhile isWhitespace cs"
    have "?r = [] \<or> \<not> isWhitespace (hd ?r)"
      by (cases "?r = []") (auto simp: hd_dropWhile)
    then have "collapseWhitespace ?r = [] \<or> \<not> isWhitespace (hd (collapseWhitespace ?r))"
      using hd_collapse_not_ws[of ?r] by (auto simp: collapseWhitespace_Nil)
    with True 2(1) show ?thesis by (simp add: spacesCollapsed_Cons)
  next
    case False
    with 2(2) show ?thesis by (simp add: spacesCollapsed_Cons)
  qed
qed

lemma spacesCollapsed_suffix: "spacesCollapsed (xs @ ys) \<Longrightarrow> spacesCollapsed ys"
  by (induction xs) (auto simp: spacesCollapsed_Cons)

lemma spacesCollapsed_prefix: "spacesCollapsed (xs @ ys) \<Longrightarrow> spacesCollapsed xs"
proof (induction xs)
  case Nil
  then show ?case by simp
next
  case (Cons x xs)
  then show ?case by (cases xs) (auto simp: spacesCollapsed_Cons)
qed

lemma trim_infix: "\<exists>a b. s = a @ trim s @ b"
proof -
  let ?t = "dropWhile isWhitespace s"
  have "rev (takeWhile isWhitespace (rev ?t) @ dropWhile isWhitespace (rev ?t)) = ?t"
    by simp
  then have "?t = trim s @ rev (takeWhile isWhitespace (rev ?t))"
    unfolding trim_def rev_append by simp
  moreover have "s = takeWhile isWhitespace s @ ?t" by simp
  ultimately have "s = takeWhile isWhitespace s @ trim s @ rev (takeWhile isWhitespace (rev ?t))"
    by simp
  then show ?thesis by blast
qed

lemma spacesCollapsed_trim: "spacesCollapsed s \<Longrightarrow> spacesCollapsed (trim s)"
proof -
  assume a: "spacesCollapsed s"
  obtain x y where "s = x @ trim s @ y" using trim_infix by blast
  with a have "spacesCollapsed (x @ trim s @ y)" by simp
  then have "spacesCollapsed (trim s @ y)" by (rule spacesCollapsed_suffix)
  then show ?thesis by (rule spacesCollapsed_prefix)
qed

lemma trim_ends: "trim s = [] \<or> (\<not> isWhitespace (hd (trim s)) \<and> \<not> isWhitespace (last (trim s)))"
proof (cases "trim s = []")
  case True
  then show ?thesis by simp
next
  case False
  let ?t = "dropWhile isWhitespace s"
  let ?u = "dropWhile isWhitespace (rev ?t)"
  from False have u: "?u \<noteq> []" by (simp add: trim_def)
  then have "\<not> isWhitespace (hd ?u)" by (rule hd_dropWhile)
  then have l: "\<not> isWhitespace (last (trim s))" using u by (simp add: trim_def last_rev)
  have t: "?t \<noteq> []"
  proof
    assume e: "?t = []"
    have "?u = []" unfolding e by simp
    with u show False by simp
  qed
  then have ht: "\<not> isWhitespace (hd ?t)" by (rule hd_dropWhile)
  have "rev ?t = takeWhile isWhitespace (rev ?t) @ ?u" by simp
  then have "last (rev ?t) = last ?u" using u by (metis last_appendR)
  then have "hd ?t = last ?u" using t by (simp add: last_rev)
  with ht have "\<not> isWhitespace (hd (trim s))" using u by (simp add: trim_def hd_rev)
  with l show ?thesis by simp
qed

lemma query_parseQuery: "query (parseQuery x) = trim (collapseWhitespace (stripMentions x))"
  by (simp add: parseQuery_def Let_def)

lemma parseQuery_no_hasMention: "\<not> hasMention (query (parseQuery x))"
  using hasMention_trim hasMention_collapseWhitespace stripMentions_no_mention query_parseQuery
  by metis

text \<open>
  Claim C6. For every input \<open>x\<close>, the cleaned query of \<open>parseQuery x\<close> has no substring
  that matches \<open>/@[a-zA-Z0-9_-]+/\<close>: it cannot be split as \<open>pre @ ''@'' @ m @ suf\<close> with
  \<open>m\<close> a non-empty run of mention characters, and the scanner \<open>hasMention\<close> finds nothing
  in it. This is the query after the mentions are stripped, the whitespace runs are
  collapsed to single spaces, and the ends are trimmed.
\<close>

theorem parseQuery_query_no_mention:
  "\<not> hasMention (query (parseQuery x)) \<and>
   \<not> (\<exists>pre m suf. query (parseQuery x) = pre @ [64] @ m @ suf \<and> m \<noteq> []
         \<and> list_all isMentionChar m) \<and>
   spacesCollapsed (query (parseQuery x)) \<and>
   (query (parseQuery x) = [] \<or>
      (\<not> isWhitespace (hd (query (parseQuery x))) \<and> \<not> isWhitespace (last (query (parseQuery x)))))"
proof -
  have "\<not> (\<exists>pre m suf. query (parseQuery x) = pre @ [64] @ m @ suf \<and> m \<noteq> []
         \<and> list_all isMentionChar m)"
  proof
    assume "\<exists>pre m suf. query (parseQuery x) = pre @ [64] @ m @ suf \<and> m \<noteq> []
         \<and> list_all isMentionChar m"
    then obtain pre m suf where q: "query (parseQuery x) = pre @ [64] @ m @ suf"
      and m: "m \<noteq> []" "list_all isMentionChar m" by blast
    from m obtain d ds where md: "m = d # ds" "isMentionChar d" by (cases m) auto
    with q have "query (parseQuery x) = pre @ 64 # d # (ds @ suf)" by simp
    with md(2) have "hasMention (query (parseQuery x))" using hasMention_at by metis
    then show False using parseQuery_no_hasMention by blast
  qed
  moreover have "spacesCollapsed (query (parseQuery x))"
    unfolding query_parseQuery
    by (intro spacesCollapsed_trim spacesCollapsed_collapseWhitespace)
  moreover have "query (parseQuery x) = [] \<or>
      (\<not> isWhitespace (hd (query (parseQuery x))) \<and> \<not> isWhitespace (last (query (parseQuery x))))"
    unfolding query_parseQuery by (rule trim_ends)
  ultimately show ?thesis using parseQuery_no_hasMention by blast
qed

theorem parseQuery_query_no_mention_witness:
  "query (parseQuery (js ''@@a@b  x @ y@c-d_e!  '')) = js ''@ x @ y!'' \<and>
   \<not> hasMention (query (parseQuery (js ''@@a@b  x @ y@c-d_e!  ''))) \<and>
   spacesCollapsed (query (parseQuery (js ''@@a@b  x @ y@c-d_e!  '')))"
  using parseQuery_query_no_mention [of "js ''@@a@b  x @ y@c-d_e!  ''"]
  by (simp add: parseQuery_def js_def isMentionChar_def isWhitespace_def trim_def)

subsection \<open>The repository list is canonical\<close>

lemma set_setFrom: "set (setFrom seen xs) = set seen \<union> set xs"
  by (induction xs arbitrary: seen) auto

lemma distinct_setFrom: "distinct seen \<Longrightarrow> distinct (setFrom seen xs)"
  by (induction xs arbitrary: seen) auto

lemma toLowerCase_idem: "toLowerCase (toLowerCase s) = toLowerCase s"
  by (simp add: toLowerCase_def isUpperCase_def)

lemma toLowerCase_fixed_iff: "(toLowerCase s = s) = (\<not> list_ex isUpperCase s)"
  by (induction s) (auto simp: toLowerCase_def)

lemma repos_parseQuery:
  "repos (parseQuery x) = sort (setFrom [] (map toLowerCase (mentionMatches x)))"
  by (simp add: parseQuery_def Let_def)

lemma parseQuery_example:
  "parseQuery (js ''@a @b @A'') = \<lparr> repos = [js ''a'', js ''b''], query = [] \<rparr>"
  by (simp add: parseQuery_def js_def isMentionChar_def isWhitespace_def toLowerCase_def
      isUpperCase_def trim_def)

text \<open>
  Claim C9. \<open>parseQuery\<close> lowercases every extracted mention, removes duplicates and
  sorts: \<open>"@a @b @A"\<close> gives the repos \<open>["a", "b"]\<close> and the empty query, and for every
  input the repos are exactly the lowercased captures, sorted, and still free of
  duplicates after case folding.
\<close>

theorem parseQuery_repos_canonical:
  "parseQuery (js ''@a @b @A'') = \<lparr> repos = [js ''a'', js ''b''], query = [] \<rparr> \<and>
   set (repos (parseQuery x)) = toLowerCase ` set (mentionMatches x) \<and>
   sorted (repos (parseQuery x)) \<and>
   distinct (map toLowerCase (repos (parseQuery x)))"
proof -
  have s: "set (repos (parseQuery x)) = toLowerCase ` set (mentionMatches x)"
    by (simp add: repos_parseQuery set_setFrom)
  have d: "distinct (repos (parseQuery x))"
    by (simp add: repos_parseQuery distinct_setFrom)
  have "map toLowerCase (repos (parseQuery x)) = repos (parseQuery x)"
    using s by (intro map_idI) (auto simp: toLowerCase_idem)
  with d have "distinct (map toLowerCase (repos (parseQuery x)))" by simp
  moreover have "sorted (repos (parseQuery x))"
    by (simp add: repos_parseQuery)
  ultimately show ?thesis using s parseQuery_example by blast
qed

theorem parseQuery_repos_canonical_witness:
  "repos (parseQuery (js ''@Svelte @SVELTE @daytona x'')) = [js ''daytona'', js ''svelte''] \<and>
   sorted (repos (parseQuery (js ''@Svelte @SVELTE @daytona x''))) \<and>
   distinct (map toLowerCase (repos (parseQuery (js ''@Svelte @SVELTE @daytona x''))))"
  using parseQuery_repos_canonical [of "js ''@Svelte @SVELTE @daytona x''"]
  by (simp add: parseQuery_def js_def isMentionChar_def toLowerCase_def isUpperCase_def)

subsection \<open>The workspace key\<close>

text \<open>
  Claim C4. For a non-empty list of names \<open>rs\<close> and any permutation \<open>rs'\<close> of it,
  \<open>getWorkspaceKey\<close> returns the same key for both: the sorted arrangement of the names,
  joined with \<open>+\<close>.
\<close>

theorem getWorkspaceKey_permutation:
  assumes "rs \<noteq> []" and "mset rs' = mset rs"
  shows "getWorkspaceKey rs' = getWorkspaceKey rs \<and>
         (\<exists>ys. sorted ys \<and> mset ys = mset rs \<and> getWorkspaceKey rs' = Inr (join (js ''+'') ys))"
proof -
  from assms have ne: "rs' \<noteq> []" by auto
  have "sort rs' = sort rs"
    using assms(2) by (intro properties_for_sort) simp_all
  with ne assms(1) have "getWorkspaceKey rs' = getWorkspaceKey rs"
    and "getWorkspaceKey rs' = Inr (join (js ''+'') (sort rs))"
    by (simp_all add: getWorkspaceKey_def)
  moreover have "sorted (sort rs) \<and> mset (sort rs) = mset rs" by simp
  ultimately show ?thesis by blast
qed

theorem getWorkspaceKey_permutation_witness:
  "getWorkspaceKey [js ''daytona'', js ''svelte''] = getWorkspaceKey [js ''svelte'', js ''daytona''] \<and>
   getWorkspaceKey [js ''svelte'', js ''daytona''] = Inr (js ''daytona+svelte'')"
  using getWorkspaceKey_permutation
    [of "[js ''svelte'', js ''daytona'']" "[js ''daytona'', js ''svelte'']"]
  by (simp add: getWorkspaceKey_def js_def)

lemma set_join: "set (join sep xs) \<subseteq> set sep \<union> set (concat xs)"
  by (induction sep xs rule: join.induct) auto

text \<open>
  Claim C5, as stated, fails: \<open>getWorkspaceKey\<close> does not fold case. For the one name
  \<open>"Svelte"\<close> the key is \<open>"Svelte"\<close>, which has an uppercase character and is not the
  joined sorted lowercase names.
\<close>

theorem getWorkspaceKey_keeps_case_counterexample:
  "getWorkspaceKey [js ''Svelte''] = Inr (js ''Svelte'') \<and>
   list_ex isUpperCase (js ''Svelte'') \<and>
   getWorkspaceKey [js ''Svelte'']
     \<noteq> Inr (join (js ''+'') (sort (map toLowerCase [js ''Svelte''])))"
  by (simp add: getWorkspaceKey_def js_def isUpperCase_def toLowerCase_def)

text \<open>
  Claim C5, amended. \<open>getWorkspaceKey\<close> fails on the empty list and, for every non-empty
  list of names, returns the sorted names joined with \<open>+\<close>, in the case they were given;
  when the names are already lowercase (as \<open>parseQuery\<close> and \<open>mergeRepos\<close> produce them),
  this is the joined sorted lowercase names and the key has no uppercase character.
\<close>

theorem getWorkspaceKey_sorted_join:
  "getWorkspaceKey [] = Inl (Error (js ''Cannot generate workspace key from empty repos list'')) \<and>
   (rs \<noteq> [] \<longrightarrow> getWorkspaceKey rs = Inr (join (js ''+'') (sort rs))) \<and>
   (rs \<noteq> [] \<and> map toLowerCase rs = rs \<longrightarrow>
      getWorkspaceKey rs = Inr (join (js ''+'') (sort (map toLowerCase rs))) \<and>
      \<not> list_ex isUpperCase (join (js ''+'') (sort rs)))"
proof -
  have "\<not> list_ex isUpperCase (join (js ''+'') (sort rs))" if "map toLowerCase rs = rs"
  proof -
    have "\<forall>r \<in> set rs. toLowerCase r = r"
      using that by (metis map_eq_conv list.map_id0 id_apply)
    then have "\<forall>r \<in> set rs. \<not> list_ex isUpperCase r"
      by (simp add: toLowerCase_fixed_iff)
    then have "\<forall>c \<in> set (concat (sort rs)). \<not> isUpperCase c"
      by (auto simp: list_ex_iff)
    moreover have "\<forall>c \<in> set (js ''+''). \<not> isUpperCase c"
      by (simp add: js_def isUpperCase_def)
    ultimately show ?thesis
      using set_join[of "js ''+''" "sort rs"] by (auto simp: list_ex_iff)
  qed
  then show ?thesis by (auto simp: getWorkspaceKey_def)
qed

theorem getWorkspaceKey_sorted_join_witness:
  "getWorkspaceKey [js ''svelte'', js ''daytona''] = Inr (js ''daytona+svelte'') \<and>
   \<not> list_ex isUpperCase (js ''daytona+svelte'')"
  using getWorkspaceKey_sorted_join [of "[js ''svelte'', js ''daytona'']"]
  by (simp add: js_def toLowerCase_def isUpperCase_def)

section \<open>Properties of the workspace service\<close>

lemma cloneOne_frame:
  "cloneOrUpdateOneRepoLocally e n w = (r, w') \<Longrightarrow>
     set (dirs w) \<subseteq> set (dirs w') \<and> worktrees w' = worktrees w \<and> worktreeCalls w' = worktreeCalls w"
  by (auto simp: cloneOrUpdateOneRepoLocally_def split: option.splits)

lemma cloneAll_frame:
  "cloneAll e ns w = (r, w') \<Longrightarrow>
     set (dirs w) \<subseteq> set (dirs w') \<and> worktrees w' = worktrees w \<and> worktreeCalls w' = worktreeCalls w"
proof (induction ns arbitrary: w)
  case Nil
  then show ?case by simp
next
  case (Cons n ns)
  obtain r1 w1 where c: "cloneOrUpdateOneRepoLocally e n w = (r1, w1)" by (cases "cloneOrUpdateOneRepoLocally e n w")
  note f = cloneOne_frame[OF c]
  show ?case
  proof (cases r1)
    case (Inl err)
    with Cons.prems c f show ?thesis by simp
  next
    case (Inr u)
    with Cons.prems c have "cloneAll e ns w1 = (r, w')" by simp
    from Cons.IH[OF this] f show ?thesis by auto
  qed
qed

lemma ensureDirectory_frame:
  "ensureDirectory e p w = (Inr u, w') \<Longrightarrow>
     set (dirs w') = insert p (set (dirs w)) \<and> worktrees w' = worktrees w \<and> worktreeCalls w' = worktreeCalls w"
  by (auto simp: ensureDirectory_def split: option.splits)

lemma ensureDirectory_fail:
  "ensureDirectory e p w = (Inl err, w') \<Longrightarrow> w' = w"
  by (auto simp: ensureDirectory_def split: option.splits)

lemma createWorktree_Inr:
  "createWorktree e a w = (Inr u, w') \<Longrightarrow>
     set (dirs w') = insert (targetDir a) (set (dirs w)) \<and> worktrees w' = worktrees w @ [a]
     \<and> worktreeCalls w' = worktreeCalls w @ [targetDir a]"
  by (auto simp: createWorktree_def Let_def split: option.splits)

lemma createWorktree_Inl:
  "createWorktree e a w = (Inl err, w') \<Longrightarrow>
     worktreeError e (targetDir a) = Some err \<and> dirs w' = dirs w \<and> worktrees w' = worktrees w
     \<and> worktreeCalls w' = worktreeCalls w @ [targetDir a]"
  by (auto simp: createWorktree_def Let_def split: option.splits)

lemma createWorktrees_Inr:
  "createWorktrees e wp cfgs w = (Inr u, w') \<Longrightarrow>
     set (dirs w') = set (dirs w) \<union> set (map (targetDir \<circ> worktreeFor e wp) cfgs)
     \<and> worktrees w' = worktrees w @ map (worktreeFor e wp) cfgs
     \<and> worktreeCalls w' = worktreeCalls w @ map (targetDir \<circ> worktreeFor e wp) cfgs"
proof (induction cfgs arbitrary: w)
  case Nil
  then show ?case by simp
next
  case (Cons r rs)
  obtain r1 w1 where c: "createWorktree e (worktreeFor e wp r) w = (r1, w1)"
    by (cases "createWorktree e (worktreeFor e wp r) w")
  show ?case
  proof (cases r1)
    case (Inl err)
    with Cons.prems c show ?thesis by simp
  next
    case (Inr v)
    with Cons.prems c have "createWorktrees e wp rs w1 = (Inr u, w')" by simp
    from Cons.IH[OF this] createWorktree_Inr[OF c[unfolded Inr]] show ?thesis by auto
  qed
qed

lemma createWorktrees_Inl:
  "createWorktrees e wp cfgs w = (Inl err, w') \<Longrightarrow>
     \<exists>made r rest. cfgs = made @ r # rest
       \<and> worktreeError e (targetDir (worktreeFor e wp r)) = Some err
       \<and> set (dirs w') = set (dirs w) \<union> set (map (targetDir \<circ> worktreeFor e wp) made)
       \<and> worktrees w' = worktrees w @ map (worktreeFor e wp) made
       \<and> worktreeCalls w' = worktreeCalls w @ map (targetDir \<circ> worktreeFor e wp) (made @ [r])"
proof (induction cfgs arbitrary: w)
  case Nil
  then show ?case by simp
next
  case (Cons r rs)
  obtain r1 w1 where c: "createWorktree e (worktreeFor e wp r) w = (r1, w1)"
    by (cases "createWorktree e (worktreeFor e wp r) w")
  show ?case
  proof (cases r1)
    case (Inl err1)
    with Cons.prems c have eq: "err1 = err" "w1 = w'" by simp_all
    from createWorktree_Inl[OF c[unfolded Inl]] eq
    have "r # rs = [] @ r # rs
       \<and> worktreeError e (targetDir (worktreeFor e wp r)) = Some err
       \<and> set (dirs w') = set (dirs w) \<union> set (map (targetDir \<circ> worktreeFor e wp) [])
       \<and> worktrees w' = worktrees w @ map (worktreeFor e wp) []
       \<and> worktreeCalls w' = worktreeCalls w @ map (targetDir \<circ> worktreeFor e wp) ([] @ [r])"
      by simp
    then show ?thesis by blast
  next
    case (Inr v)
    with Cons.prems c have "createWorktrees e wp rs w1 = (Inl err, w')" by simp
    from Cons.IH[OF this] obtain made r' rest where
      h: "rs = made @ r' # rest"
         "worktreeError e (targetDir (worktreeFor e wp r')) = Some err"
         "set (dirs w') = set (dirs w1) \<union> set (map (targetDir \<circ> worktreeFor e wp) made)"
         "worktrees w' = worktrees w1 @ map (worktreeFor e wp) made"
         "worktreeCalls w' = worktreeCalls w1 @ map (targetDir \<circ> worktreeFor e wp) (made @ [r'])"
      by blast
    from h createWorktree_Inr[OF c[unfolded Inr]]
    have "r # rs = (r # made) @ r' # rest
       \<and> worktreeError e (targetDir (worktreeFor e wp r')) = Some err
       \<and> set (dirs w') = set (dirs w) \<union> set (map (targetDir \<circ> worktreeFor e wp) (r # made))
       \<and> worktrees w' = worktrees w @ map (worktreeFor e wp) (r # made)
       \<and> worktreeCalls w' = worktreeCalls w @ map (targetDir \<circ> worktreeFor e wp) ((r # made) @ [r'])"
      by auto
    then show ?thesis by blast
  qed
qed

lemmas eval_defs = ensureWorkspace_def getWorkspaceKey_def js_def pathJoin_def getRepo_def
  cloneOrUpdateOneRepoLocally_def directoryExists_def ensureDirectory_def createWorktree_def
  worktreeFor_def workspaceRepo_def emptyWorld_def demoEnv_def brokenGitEnv_def demoRepo_def Let_def

lemma ensureWorkspace_brokenGit:
  "ensureWorkspace brokenGitEnv [js ''svelte'', js ''daytona''] emptyWorld =
     (Inl (CollaboratorError (js ''git worktree add failed'')),
      \<lparr> dirs = [js ''ws/daytona+svelte/daytona'', js ''ws/daytona+svelte'', js ''repos/svelte'', js ''repos/daytona''],
        worktrees = [\<lparr> repoDir = js ''repos/daytona'', targetDir = js ''ws/daytona+svelte/daytona'',
                       ref = js ''origin/main'' \<rparr>],
        worktreeCalls = [js ''ws/daytona+svelte/daytona'', js ''ws/daytona+svelte/svelte''],
        portsTried = [], running = [], closeCalls = [], sessionCalls = 0 \<rparr>)"
  by (simp add: eval_defs)

lemma ensureWorkspace_demo:
  "ensureWorkspace demoEnv [js ''svelte'', js ''daytona''] emptyWorld =
     (Inr \<lparr> workspacePath = js ''ws/daytona+svelte'',
            wsRepos = [\<lparr> wrName = js ''daytona'', wrRelativePath = js ''daytona'', wrSpecialNotes = None \<rparr>,
                       \<lparr> wrName = js ''svelte'', wrRelativePath = js ''svelte'', wrSpecialNotes = None \<rparr>] \<rparr>,
      \<lparr> dirs = [js ''ws/daytona+svelte/svelte'', js ''ws/daytona+svelte/daytona'', js ''ws/daytona+svelte'', js ''repos/svelte'', js ''repos/daytona''],
        worktrees = [\<lparr> repoDir = js ''repos/daytona'', targetDir = js ''ws/daytona+svelte/daytona'',
                       ref = js ''origin/main'' \<rparr>,
                     \<lparr> repoDir = js ''repos/svelte'', targetDir = js ''ws/daytona+svelte/svelte'',
                       ref = js ''origin/main'' \<rparr>],
        worktreeCalls = [js ''ws/daytona+svelte/daytona'', js ''ws/daytona+svelte/svelte''],
        portsTried = [], running = [], closeCalls = [], sessionCalls = 0 \<rparr>)"
  by (simp add: eval_defs)

lemma getWorkspaceKey_sort:
  "rs \<noteq> [] \<Longrightarrow> getWorkspaceKey (sort rs) = Inr (join (js ''+'') (sort rs))
     \<and> getWorkspaceKey rs = Inr (join (js ''+'') (sort rs))"
  by (simp add: getWorkspaceKey_def sorted_sort_id)

text \<open>The steps of \<open>ensureWorkspace\<close>, one at a time.\<close>

lemma ensureWorkspace_empty:
  "ensureWorkspace e [] w = (Inl (ConfigError (js ''At least one repo must be specified'')), w)"
  by (simp add: ensureWorkspace_def)

lemma ensureWorkspace_registry_fails:
  "rs \<noteq> [] \<Longrightarrow> getRepoConfigs e (sort rs) = Inl err \<Longrightarrow> ensureWorkspace e rs w = (Inl err, w)"
  by (simp add: ensureWorkspace_def getWorkspaceKey_sort Let_def)

lemma ensureWorkspace_clone_fails:
  "rs \<noteq> [] \<Longrightarrow> getRepoConfigs e (sort rs) = Inr cfgs \<Longrightarrow> cloneAll e (sort rs) w = (Inl err, w1)
   \<Longrightarrow> ensureWorkspace e rs w = (Inl err, w1)"
  by (simp add: ensureWorkspace_def getWorkspaceKey_sort Let_def)

lemma ensureWorkspace_reuse:
  "rs \<noteq> [] \<Longrightarrow> getRepoConfigs e (sort rs) = Inr cfgs \<Longrightarrow> cloneAll e (sort rs) w = (Inr u, w1)
   \<Longrightarrow> directoryExists (pathJoin (workspacesDir e) (join (js ''+'') (sort rs))) w1
   \<Longrightarrow> ensureWorkspace e rs w =
        (Inr \<lparr> workspacePath = pathJoin (workspacesDir e) (join (js ''+'') (sort rs)),
               wsRepos = map workspaceRepo cfgs \<rparr>, w1)"
  by (simp add: ensureWorkspace_def getWorkspaceKey_sort Let_def)

lemma ensureWorkspace_create:
  "rs \<noteq> [] \<Longrightarrow> getRepoConfigs e (sort rs) = Inr cfgs \<Longrightarrow> cloneAll e (sort rs) w = (Inr u, w1)
   \<Longrightarrow> \<not> directoryExists (pathJoin (workspacesDir e) (join (js ''+'') (sort rs))) w1
   \<Longrightarrow> ensureWorkspace e rs w =
        (case ensureDirectory e (pathJoin (workspacesDir e) (join (js ''+'') (sort rs))) w1 of
           (Inl err, w2) \<Rightarrow> (Inl err, w2)
         | (Inr u2, w2) \<Rightarrow>
             (case createWorktrees e (pathJoin (workspacesDir e) (join (js ''+'') (sort rs))) cfgs w2 of
                (Inl err, w3) \<Rightarrow> (Inl err, w3)
              | (Inr u3, w3) \<Rightarrow>
                  (Inr \<lparr> workspacePath = pathJoin (workspacesDir e) (join (js ''+'') (sort rs)),
                         wsRepos = map workspaceRepo cfgs \<rparr>, w3)))"
  by (simp add: ensureWorkspace_def getWorkspaceKey_sort Let_def)

text \<open>
  Claim C1, amended. \<open>ensureWorkspace\<close> has no cleanup. When it fails after
  \<open>createWorktree\<close> has been invoked, the error is the one of the failing
  \<open>createWorktree\<close>, surfaced at once, and what the attempt built stays: the workspace
  directory \<open><workspacesDir>/<key>\<close> exists, and so does every worktree made before the
  failing member, on disk and in the registrations.
\<close>

theorem ensureWorkspace_failure_keeps_partial_workspace:
  assumes run: "ensureWorkspace e rs w = (Inl err, w')"
      and begun: "worktreeCalls w' \<noteq> worktreeCalls w"
  shows "\<exists>key cfgs made r rest.
           getWorkspaceKey rs = Inr key \<and> getRepoConfigs e (sort rs) = Inr cfgs \<and>
           cfgs = made @ r # rest \<and>
           worktreeError e (pathJoin (pathJoin (workspacesDir e) key) (rcName r)) = Some err \<and>
           directoryExists (pathJoin (workspacesDir e) key) w' \<and>
           list_all (\<lambda>m. directoryExists (pathJoin (pathJoin (workspacesDir e) key) (rcName m)) w') made \<and>
           worktrees w' = worktrees w @ map (worktreeFor e (pathJoin (workspacesDir e) key)) made"
proof -
  let ?key = "join (js ''+'') (sort rs)"
  let ?wp = "pathJoin (workspacesDir e) ?key"
  from run begun have ne: "rs \<noteq> []" by (auto simp: ensureWorkspace_empty)
  obtain c where c: "getRepoConfigs e (sort rs) = c" by simp
  obtain r1 w1 where cl: "cloneAll e (sort rs) w = (r1, w1)" by (cases "cloneAll e (sort rs) w")
  note f1 = cloneAll_frame[OF cl]
  from c run begun ne obtain cfgs where cfgs: "getRepoConfigs e (sort rs) = Inr cfgs"
    by (cases c) (auto simp: ensureWorkspace_registry_fails)
  from cl cfgs run begun ne f1 obtain u where u: "r1 = Inr u"
    by (cases r1) (auto simp: ensureWorkspace_clone_fails)
  have nex: "\<not> directoryExists ?wp w1"
    using ensureWorkspace_reuse[OF ne cfgs cl[unfolded u]] run by auto
  obtain r2 w2 where mk: "ensureDirectory e ?wp w1 = (r2, w2)" by (cases "ensureDirectory e ?wp w1")
  have step: "ensureWorkspace e rs w =
        (case ensureDirectory e ?wp w1 of
           (Inl err, w2) \<Rightarrow> (Inl err, w2)
         | (Inr u2, w2) \<Rightarrow>
             (case createWorktrees e ?wp cfgs w2 of
                (Inl err, w3) \<Rightarrow> (Inl err, w3)
              | (Inr u3, w3) \<Rightarrow> (Inr \<lparr> workspacePath = ?wp, wsRepos = map workspaceRepo cfgs \<rparr>, w3)))"
    by (rule ensureWorkspace_create[OF ne cfgs cl[unfolded u] nex])
  from step mk run begun f1 obtain u2 where u2: "r2 = Inr u2"
    by (cases r2) (auto dest: ensureDirectory_fail)
  note f2 = ensureDirectory_frame[OF mk[unfolded u2]]
  obtain r3 w3 where cw: "createWorktrees e ?wp cfgs w2 = (r3, w3)"
    by (cases "createWorktrees e ?wp cfgs w2")
  from step mk u2 cw run have r3: "r3 = Inl err" "w3 = w'" by (cases r3; simp)+
  from createWorktrees_Inl[OF cw[unfolded r3]] obtain made r rest where
    h: "cfgs = made @ r # rest"
       "worktreeError e (targetDir (worktreeFor e ?wp r)) = Some err"
       "set (dirs w') = set (dirs w2) \<union> set (map (targetDir \<circ> worktreeFor e ?wp) made)"
       "worktrees w' = worktrees w2 @ map (worktreeFor e ?wp) made"
    by blast
  have "directoryExists ?wp w'"
    using h(3) f2 by (simp add: directoryExists_def)
  moreover have "list_all (\<lambda>m. directoryExists (pathJoin ?wp (rcName m)) w') made"
    using h(3) by (auto simp: list_all_iff directoryExists_def worktreeFor_def)
  moreover have "worktrees w' = worktrees w @ map (worktreeFor e ?wp) made"
    using h(4) f2 f1 by simp
  moreover have "worktreeError e (pathJoin ?wp (rcName r)) = Some err"
    using h(2) by (simp add: worktreeFor_def)
  moreover have "getWorkspaceKey rs = Inr ?key"
    using ne by (simp add: getWorkspaceKey_sort)
  ultimately show ?thesis using cfgs h(1) by blast
qed

lemma ensureWorkspace_success_dir:
  assumes run: "ensureWorkspace e rs w = (Inr info, w')"
  shows "rs \<noteq> [] \<and> set (dirs w) \<subseteq> set (dirs w') \<and>
         workspacePath info = pathJoin (workspacesDir e) (join (js ''+'') (sort rs)) \<and>
         directoryExists (workspacePath info) w' \<and>
         (\<exists>cfgs. getRepoConfigs e (sort rs) = Inr cfgs \<and> wsRepos info = map workspaceRepo cfgs) \<and>
         (\<exists>w1. cloneAll e (sort rs) w = (Inr (), w1))"
proof -
  let ?key = "join (js ''+'') (sort rs)"
  let ?wp = "pathJoin (workspacesDir e) ?key"
  from run have ne: "rs \<noteq> []" by (auto simp: ensureWorkspace_empty)
  obtain c where c: "getRepoConfigs e (sort rs) = c" by simp
  obtain r1 w1 where cl: "cloneAll e (sort rs) w = (r1, w1)" by (cases "cloneAll e (sort rs) w")
  note f1 = cloneAll_frame[OF cl]
  from c run ne obtain cfgs where cfgs: "getRepoConfigs e (sort rs) = Inr cfgs"
    by (cases c) (auto simp: ensureWorkspace_registry_fails)
  from cl cfgs run ne obtain u where u: "r1 = Inr u"
    by (cases r1) (auto simp: ensureWorkspace_clone_fails)
  show ?thesis
  proof (cases "directoryExists ?wp w1")
    case True
    from ensureWorkspace_reuse[OF ne cfgs cl[unfolded u] True] run
    have "info = \<lparr> workspacePath = ?wp, wsRepos = map workspaceRepo cfgs \<rparr>" "w' = w1" by simp_all
    with True f1 ne cfgs cl u show ?thesis by auto
  next
    case False
    obtain r2 w2 where mk: "ensureDirectory e ?wp w1 = (r2, w2)" by (cases "ensureDirectory e ?wp w1")
    note step = ensureWorkspace_create[OF ne cfgs cl[unfolded u] False]
    from step mk run obtain u2 where u2: "r2 = Inr u2" by (cases r2) auto
    note f2 = ensureDirectory_frame[OF mk[unfolded u2]]
    obtain r3 w3 where cw: "createWorktrees e ?wp cfgs w2 = (r3, w3)"
      by (cases "createWorktrees e ?wp cfgs w2")
    from step mk u2 cw run obtain u3 where r3: "r3 = Inr u3" "w3 = w'"
      and info: "info = \<lparr> workspacePath = ?wp, wsRepos = map workspaceRepo cfgs \<rparr>"
      by (cases r3) auto
    note f3 = createWorktrees_Inr[OF cw[unfolded r3]]
    from f1 f2 f3 info ne cfgs cl u show ?thesis by (auto simp: directoryExists_def)
  qed
qed

lemma cloneAll_succeeds_iff:
  "(\<exists>w'. cloneAll e ns w = (Inr (), w')) = list_all (\<lambda>n. fetchError e n = None) ns"
proof (induction ns arbitrary: w)
  case Nil
  then show ?case by simp
next
  case (Cons n ns)
  show ?case
  proof (cases "fetchError e n")
    case None
    then show ?thesis using Cons.IH by (simp add: cloneOrUpdateOneRepoLocally_def)
  next
    case (Some err)
    then show ?thesis by (simp add: cloneOrUpdateOneRepoLocally_def)
  qed
qed

lemma ensureWorkspace_existing:
  assumes ex: "directoryExists (pathJoin (workspacesDir e) (join (js ''+'') (sort rs))) w"
      and ne: "rs \<noteq> []"
  shows "worktreeCalls (snd (ensureWorkspace e rs w)) = worktreeCalls w \<and>
         worktrees (snd (ensureWorkspace e rs w)) = worktrees w \<and>
         (\<forall>info. fst (ensureWorkspace e rs w) = Inr info
            \<longrightarrow> workspacePath info = pathJoin (workspacesDir e) (join (js ''+'') (sort rs)))"
proof -
  let ?wp = "pathJoin (workspacesDir e) (join (js ''+'') (sort rs))"
  obtain r1 w1 where cl: "cloneAll e (sort rs) w = (r1, w1)" by (cases "cloneAll e (sort rs) w")
  note f1 = cloneAll_frame[OF cl]
  show ?thesis
  proof (cases "getRepoConfigs e (sort rs)")
    case (Inl err)
    then show ?thesis using ne by (simp add: ensureWorkspace_registry_fails)
  next
    case (Inr cfgs)
    show ?thesis
    proof (cases r1)
      case (Inl err)
      from ensureWorkspace_clone_fails[OF ne Inr cl[unfolded Inl]] f1 show ?thesis by simp
    next
      case u: (Inr u)
      from f1 ex have "directoryExists ?wp w1" by (auto simp: directoryExists_def)
      from ensureWorkspace_reuse[OF ne Inr cl[unfolded u] this] f1 show ?thesis by simp
    qed
  qed
qed

text \<open>
  Claim C8. After a successful \<open>ensureWorkspace\<close> for a repository set, a second call
  for the same set returns the identical result (the same \<open>workspacePath\<close>, which is
  \<open><workspacesDir>/<key>\<close> for the key of the set) and invokes \<open>createWorktree\<close> for
  nothing. The same holds whatever the helpers answer the second time (environment
  \<open>e'\<close>): no worktree is created, and a successful second call returns the same path.
\<close>

theorem ensureWorkspace_twice:
  assumes first: "ensureWorkspace e rs w0 = (Inr info1, w1)"
      and same_config: "workspacesDir e' = workspacesDir e"
  shows "\<exists>key w2.
           getWorkspaceKey rs = Inr key \<and>
           workspacePath info1 = pathJoin (workspacesDir e) key \<and>
           ensureWorkspace e rs w1 = (Inr info1, w2) \<and>
           worktreeCalls w2 = worktreeCalls w1 \<and> worktrees w2 = worktrees w1 \<and>
           worktreeCalls (snd (ensureWorkspace e' rs w1)) = worktreeCalls w1 \<and>
           (\<forall>info2. fst (ensureWorkspace e' rs w1) = Inr info2
                \<longrightarrow> workspacePath info2 = workspacePath info1)"
proof -
  let ?key = "join (js ''+'') (sort rs)"
  let ?wp = "pathJoin (workspacesDir e) ?key"
  from ensureWorkspace_success_dir[OF first] obtain cfgs v1 where
    ne: "rs \<noteq> []" and wp: "workspacePath info1 = ?wp" and ex: "directoryExists ?wp w1"
    and cfgs: "getRepoConfigs e (sort rs) = Inr cfgs" "wsRepos info1 = map workspaceRepo cfgs"
    and cl0: "cloneAll e (sort rs) w0 = (Inr (), v1)"
    by auto
  have info1: "info1 = \<lparr> workspacePath = ?wp, wsRepos = map workspaceRepo cfgs \<rparr>"
    using wp cfgs(2) by simp
  have key: "getWorkspaceKey rs = Inr ?key" using ne by (simp add: getWorkspaceKey_sort)
  \<comment> \<open>the second call in the same environment\<close>
  have again: "\<exists>w2. cloneAll e (sort rs) w1 = (Inr (), w2)"
    using cl0 cloneAll_succeeds_iff[of e "sort rs" w0] cloneAll_succeeds_iff[of e "sort rs" w1]
    by blast
  then obtain w2 where cl: "cloneAll e (sort rs) w1 = (Inr (), w2)" by blast
  note f = cloneAll_frame[OF cl]
  from f ex have ex2: "directoryExists ?wp w2" by (auto simp: directoryExists_def)
  have second: "ensureWorkspace e rs w1 = (Inr info1, w2)"
    using ensureWorkspace_reuse[OF ne cfgs(1) cl ex2] info1 by simp
  have ex': "directoryExists (pathJoin (workspacesDir e') ?key) w1"
    using ex same_config by simp
  from ensureWorkspace_existing[OF ex' ne] same_config wp
  have other: "worktreeCalls (snd (ensureWorkspace e' rs w1)) = worktreeCalls w1 \<and>
         (\<forall>info2. fst (ensureWorkspace e' rs w1) = Inr info2
                \<longrightarrow> workspacePath info2 = workspacePath info1)"
    by simp
  from key wp second f other show ?thesis by blast
qed


theorem ensureWorkspace_failure_keeps_partial_workspace_witness:
  "\<exists>key cfgs made r rest.
     getWorkspaceKey [js ''svelte'', js ''daytona''] = Inr key \<and>
     getRepoConfigs brokenGitEnv (sort [js ''svelte'', js ''daytona'']) = Inr cfgs \<and>
     cfgs = made @ r # rest \<and>
     worktreeError brokenGitEnv (pathJoin (pathJoin (workspacesDir brokenGitEnv) key) (rcName r))
       = Some (CollaboratorError (js ''git worktree add failed'')) \<and>
     directoryExists (pathJoin (workspacesDir brokenGitEnv) key)
       (snd (ensureWorkspace brokenGitEnv [js ''svelte'', js ''daytona''] emptyWorld)) \<and>
     list_all (\<lambda>m. directoryExists (pathJoin (pathJoin (workspacesDir brokenGitEnv) key) (rcName m))
       (snd (ensureWorkspace brokenGitEnv [js ''svelte'', js ''daytona''] emptyWorld))) made \<and>
     worktrees (snd (ensureWorkspace brokenGitEnv [js ''svelte'', js ''daytona''] emptyWorld))
       = worktrees emptyWorld @ map (worktreeFor brokenGitEnv (pathJoin (workspacesDir brokenGitEnv) key)) made"
proof -
  have "worktreeCalls (snd (ensureWorkspace brokenGitEnv [js ''svelte'', js ''daytona''] emptyWorld))
          \<noteq> worktreeCalls emptyWorld"
    by (simp add: ensureWorkspace_brokenGit) (simp add: emptyWorld_def)
  with ensureWorkspace_failure_keeps_partial_workspace
    [of brokenGitEnv "[js ''svelte'', js ''daytona'']" emptyWorld
        "CollaboratorError (js ''git worktree add failed'')"
        "snd (ensureWorkspace brokenGitEnv [js ''svelte'', js ''daytona''] emptyWorld)"]
  show ?thesis by (simp add: ensureWorkspace_brokenGit)
qed

text \<open>
  Claim C1, as stated, fails. With two members and a \<open>git worktree add\<close> that fails for
  the second, \<open>ensureWorkspace\<close> returns the error and leaves the workspace directory,
  created in this attempt, with the worktree of the first member only.
\<close>

theorem ensureWorkspace_not_atomic_counterexample:
  "fst (ensureWorkspace brokenGitEnv [js ''svelte'', js ''daytona''] emptyWorld)
     = Inl (CollaboratorError (js ''git worktree add failed'')) \<and>
   \<not> directoryExists (js ''ws/daytona+svelte'') emptyWorld \<and>
   directoryExists (js ''ws/daytona+svelte'')
     (snd (ensureWorkspace brokenGitEnv [js ''svelte'', js ''daytona''] emptyWorld)) \<and>
   directoryExists (js ''ws/daytona+svelte/daytona'')
     (snd (ensureWorkspace brokenGitEnv [js ''svelte'', js ''daytona''] emptyWorld)) \<and>
   \<not> directoryExists (js ''ws/daytona+svelte/svelte'')
     (snd (ensureWorkspace brokenGitEnv [js ''svelte'', js ''daytona''] emptyWorld)) \<and>
   worktrees (snd (ensureWorkspace brokenGitEnv [js ''svelte'', js ''daytona''] emptyWorld))
     = [\<lparr> repoDir = js ''repos/daytona'', targetDir = js ''ws/daytona+svelte/daytona'',
           ref = js ''origin/main'' \<rparr>]"
  by (simp add: ensureWorkspace_brokenGit) (simp add: directoryExists_def emptyWorld_def js_def)

theorem ensureWorkspace_twice_witness:
  "getWorkspaceKey [js ''svelte'', js ''daytona''] = Inr (js ''daytona+svelte'') \<and>
   fst (ensureWorkspace demoEnv [js ''svelte'', js ''daytona'']
         (snd (ensureWorkspace demoEnv [js ''svelte'', js ''daytona''] emptyWorld)))
     = fst (ensureWorkspace demoEnv [js ''svelte'', js ''daytona''] emptyWorld) \<and>
   worktreeCalls (snd (ensureWorkspace demoEnv [js ''svelte'', js ''daytona'']
         (snd (ensureWorkspace demoEnv [js ''svelte'', js ''daytona''] emptyWorld))))
     = worktreeCalls (snd (ensureWorkspace demoEnv [js ''svelte'', js ''daytona''] emptyWorld))"
proof -
  from ensureWorkspace_twice [OF ensureWorkspace_demo refl]
  obtain w2 where
    h: "ensureWorkspace demoEnv [js ''svelte'', js ''daytona'']
          (snd (ensureWorkspace demoEnv [js ''svelte'', js ''daytona''] emptyWorld))
        = (fst (ensureWorkspace demoEnv [js ''svelte'', js ''daytona''] emptyWorld), w2)"
       "worktreeCalls w2
        = worktreeCalls (snd (ensureWorkspace demoEnv [js ''svelte'', js ''daytona''] emptyWorld))"
    unfolding ensureWorkspace_demo fst_conv snd_conv by blast
  have "getWorkspaceKey [js ''svelte'', js ''daytona''] = Inr (js ''daytona+svelte'')"
    by (simp add: getWorkspaceKey_def js_def)
  with h show ?thesis by simp
qed

section \<open>Properties of session start\<close>

lemma portLoop_busy:
  "i < maxInstances \<Longrightarrow> boot e (3420 + i) = Some t \<Longrightarrow> mentionsPort t \<Longrightarrow>
   portLoop e wi i w = portLoop e wi (i + 1) (w\<lparr> portsTried := portsTried w @ [3420 + i] \<rparr>)"
  by (subst portLoop.simps) (simp add: createOpencode_def Let_def)

lemma portLoop_fatal:
  "i < maxInstances \<Longrightarrow> boot e (3420 + i) = Some t \<Longrightarrow> \<not> mentionsPort t \<Longrightarrow>
   portLoop e wi i w =
     (Inl (OcError (js ''FAILED TO CREATE OPENCODE CLIENT'') (UnknownException t)),
      w\<lparr> portsTried := portsTried w @ [3420 + i] \<rparr>)"
  by (subst portLoop.simps) (simp add: createOpencode_def Let_def)

lemma portLoop_booted:
  "i < maxInstances \<Longrightarrow> boot e (3420 + i) = None \<Longrightarrow>
   portLoop e wi i w =
     (Inr \<lparr> client = \<lparr> clientPort = 3420 + i, clientDirectory = workspacePath wi \<rparr>,
            server = 3420 + i \<rparr>,
      w\<lparr> portsTried := portsTried w @ [3420 + i], running := running w @ [3420 + i] \<rparr>)"
  by (subst portLoop.simps) (simp add: createOpencode_def Let_def)

lemma portLoop_exhausted:
  "\<not> i < maxInstances \<Longrightarrow>
   portLoop e wi i w =
     (Inl (OcError (js ''FAILED TO CREATE OPENCODE CLIENT - all ports exhausted'') NoCause), w)"
  by (subst portLoop.simps) simp

lemma portLoop_skip:
  "j \<le> maxInstances \<Longrightarrow>
   (\<forall>k<j. \<exists>t. boot e (3420 + k) = Some t \<and> mentionsPort t) \<Longrightarrow>
   portLoop e wi 0 w = portLoop e wi j (w\<lparr> portsTried := portsTried w @ map (\<lambda>k. 3420 + k) [0..<j] \<rparr>)"
proof (induction j)
  case 0
  then show ?case by simp
next
  case (Suc j)
  then obtain t where t: "boot e (3420 + j) = Some t" "mentionsPort t" by auto
  from Suc have "portLoop e wi 0 w
      = portLoop e wi j (w\<lparr> portsTried := portsTried w @ map (\<lambda>k. 3420 + k) [0..<j] \<rparr>)"
    by simp
  also have "\<dots> = portLoop e wi (j + 1)
      (w\<lparr> portsTried := portsTried w @ map (\<lambda>k. 3420 + k) [0..<j] \<rparr>
         \<lparr> portsTried := portsTried (w\<lparr> portsTried := portsTried w @ map (\<lambda>k. 3420 + k) [0..<j] \<rparr>) @ [3420 + j] \<rparr>)"
    using Suc.prems(1) t by (intro portLoop_busy) simp_all
  finally show ?case by simp
qed

lemma instance_booted:
  assumes "j < maxInstances" "\<forall>k<j. \<exists>t. boot e (3420 + k) = Some t \<and> mentionsPort t"
    "boot e (3420 + j) = None"
  shows "getOpencodeInstanceForWorkspace e wi w =
     (Inr \<lparr> client = \<lparr> clientPort = 3420 + j, clientDirectory = workspacePath wi \<rparr>,
            server = 3420 + j \<rparr>,
      w\<lparr> portsTried := portsTried w @ map (\<lambda>k. 3420 + k) [0..<Suc j],
         running := running w @ [3420 + j] \<rparr>)"
  unfolding getOpencodeInstanceForWorkspace_def
  using assms by (simp add: portLoop_skip[of j] portLoop_booted)

lemma instance_fatal:
  assumes "j < maxInstances" "\<forall>k<j. \<exists>t. boot e (3420 + k) = Some t \<and> mentionsPort t"
    "boot e (3420 + j) = Some t" "\<not> mentionsPort t"
  shows "getOpencodeInstanceForWorkspace e wi w =
     (Inl (OcError (js ''FAILED TO CREATE OPENCODE CLIENT'') (UnknownException t)),
      w\<lparr> portsTried := portsTried w @ map (\<lambda>k. 3420 + k) [0..<Suc j] \<rparr>)"
  unfolding getOpencodeInstanceForWorkspace_def
  using assms by (simp add: portLoop_skip[of j] portLoop_fatal)

lemma instance_exhausted:
  assumes "\<forall>k<maxInstances. \<exists>t. boot e (3420 + k) = Some t \<and> mentionsPort t"
  shows "getOpencodeInstanceForWorkspace e wi w =
     (Inl (OcError (js ''FAILED TO CREATE OPENCODE CLIENT - all ports exhausted'') NoCause),
      w\<lparr> portsTried := portsTried w @ map (\<lambda>k. 3420 + k) [0..<maxInstances] \<rparr>)"
  unfolding getOpencodeInstanceForWorkspace_def
  using assms by (simp add: portLoop_skip[of maxInstances] portLoop_exhausted)

lemma cloneAll_rest:
  "cloneAll e ns w = (r, w') \<Longrightarrow>
     portsTried w' = portsTried w \<and> running w' = running w \<and> closeCalls w' = closeCalls w
     \<and> sessionCalls w' = sessionCalls w"
proof (induction ns arbitrary: w)
  case Nil
  then show ?case by simp
next
  case (Cons n ns)
  show ?case
  proof (cases "fetchError e n")
    case None
    with Cons.prems have "cloneAll e ns (w\<lparr> dirs := List.insert (pathJoin (reposDir e) n) (dirs w) \<rparr>) = (r, w')"
      by (simp add: cloneOrUpdateOneRepoLocally_def)
    from Cons.IH[OF this] show ?thesis by simp
  next
    case (Some err)
    with Cons.prems show ?thesis by (simp add: cloneOrUpdateOneRepoLocally_def)
  qed
qed

lemma createWorktrees_rest:
  "createWorktrees e wp cfgs w = (r, w') \<Longrightarrow>
     portsTried w' = portsTried w \<and> running w' = running w \<and> closeCalls w' = closeCalls w
     \<and> sessionCalls w' = sessionCalls w"
proof (induction cfgs arbitrary: w)
  case Nil
  then show ?case by simp
next
  case (Cons c cfgs)
  obtain r1 w1 where c: "createWorktree e (worktreeFor e wp c) w = (r1, w1)"
    by (cases "createWorktree e (worktreeFor e wp c) w")
  then have f: "portsTried w1 = portsTried w \<and> running w1 = running w \<and> closeCalls w1 = closeCalls w
     \<and> sessionCalls w1 = sessionCalls w"
    by (auto simp: createWorktree_def Let_def split: option.splits)
  show ?case
  proof (cases r1)
    case (Inl err)
    with Cons.prems c f show ?thesis by simp
  next
    case (Inr u)
    with Cons.prems c have "createWorktrees e wp cfgs w1 = (r, w')" by simp
    from Cons.IH[OF this] f show ?thesis by simp
  qed
qed

lemma ensureWorkspace_rest:
  assumes "ensureWorkspace e rs w = (r, w')"
  shows "portsTried w' = portsTried w \<and> running w' = running w \<and> closeCalls w' = closeCalls w
     \<and> sessionCalls w' = sessionCalls w"
proof (cases "rs = []")
  case True
  with assms show ?thesis by (simp add: ensureWorkspace_empty)
next
  case ne: False
  let ?wp = "pathJoin (workspacesDir e) (join (js ''+'') (sort rs))"
  obtain r1 w1 where cl: "cloneAll e (sort rs) w = (r1, w1)" by (cases "cloneAll e (sort rs) w")
  note f1 = cloneAll_rest[OF cl]
  show ?thesis
  proof (cases "getRepoConfigs e (sort rs)")
    case (Inl err)
    with assms ne show ?thesis by (simp add: ensureWorkspace_registry_fails)
  next
    case cfgs: (Inr cfgs)
    show ?thesis
    proof (cases r1)
      case (Inl err)
      from ensureWorkspace_clone_fails[OF ne cfgs cl[unfolded Inl]] assms f1 show ?thesis by simp
    next
      case u: (Inr u)
      show ?thesis
      proof (cases "directoryExists ?wp w1")
        case True
        from ensureWorkspace_reuse[OF ne cfgs cl[unfolded u] True] assms f1 show ?thesis by simp
      next
        case False
        note step = ensureWorkspace_create[OF ne cfgs cl[unfolded u] False]
        obtain r2 w2 where mk: "ensureDirectory e ?wp w1 = (r2, w2)" by (cases "ensureDirectory e ?wp w1")
        then have f2: "portsTried w2 = portsTried w1 \<and> running w2 = running w1
           \<and> closeCalls w2 = closeCalls w1 \<and> sessionCalls w2 = sessionCalls w1"
          by (auto simp: ensureDirectory_def split: option.splits)
        obtain r3 w3 where cw: "createWorktrees e ?wp cfgs w2 = (r3, w3)"
          by (cases "createWorktrees e ?wp cfgs w2")
        note f3 = createWorktrees_rest[OF cw]
        from step mk cw assms f1 f2 f3 show ?thesis
          by (cases r2; cases r3) auto
      qed
    qed
  qed
qed

lemma createSession_exhausted:
  assumes busy: "\<forall>k<maxInstances. \<exists>t. boot e (3420 + k) = Some t \<and> mentionsPort t"
  shows "\<exists>err w'. createSession e rs w = (Inl err, w') \<and> sessionCalls w' = sessionCalls w
           \<and> running w' = running w \<and>
           (\<forall>info w1. ensureWorkspace e rs w = (Inr info, w1) \<longrightarrow>
              err = OcError (js ''FAILED TO CREATE OPENCODE CLIENT - all ports exhausted'') NoCause)"
proof -
  obtain r1 w1 where ew: "ensureWorkspace e rs w = (r1, w1)" by (cases "ensureWorkspace e rs w")
  note f = ensureWorkspace_rest[OF ew]
  show ?thesis
  proof (cases r1)
    case (Inl err)
    with ew f show ?thesis by (simp add: createSession_def)
  next
    case (Inr info)
    with ew f instance_exhausted[OF busy, of info w1] show ?thesis
      by (simp add: createSession_def)
  qed
qed

text \<open>
  Claim C3. \<open>getOpencodeInstanceForWorkspace\<close> tries the ports 3420, 3421, ... in order,
  at most 30 of them. While the boot fails with an error that mentions \<open>port\<close> it moves
  to the next port. If port \<open>3420 + j\<close> is the first that is not busy, the server runs
  there when the boot succeeds, and the start fails at once, with no further attempt,
  when the boot fails for another reason. If all 30 ports are busy the result is the
  ports-exhausted error after exactly the attempts 3420..3449, and \<open>createSession\<close>
  fails without any \<open>session.create\<close> call and without a running server.
\<close>

theorem port_allocation:
  "(j < 30 \<and> (\<forall>k<j. \<exists>t. boot e (3420 + k) = Some t \<and> mentionsPort t) \<and> boot e (3420 + j) = None
      \<longrightarrow> getOpencodeInstanceForWorkspace e wi w =
            (Inr \<lparr> client = \<lparr> clientPort = 3420 + j, clientDirectory = workspacePath wi \<rparr>,
                   server = 3420 + j \<rparr>,
             w\<lparr> portsTried := portsTried w @ map (\<lambda>k. 3420 + k) [0..<Suc j],
                running := running w @ [3420 + j] \<rparr>)) \<and>
   (j < 30 \<and> (\<forall>k<j. \<exists>t. boot e (3420 + k) = Some t \<and> mentionsPort t)
      \<and> boot e (3420 + j) = Some t \<and> \<not> mentionsPort t
      \<longrightarrow> getOpencodeInstanceForWorkspace e wi w =
            (Inl (OcError (js ''FAILED TO CREATE OPENCODE CLIENT'') (UnknownException t)),
             w\<lparr> portsTried := portsTried w @ map (\<lambda>k. 3420 + k) [0..<Suc j] \<rparr>)) \<and>
   ((\<forall>k<30. \<exists>t. boot e (3420 + k) = Some t \<and> mentionsPort t)
      \<longrightarrow> getOpencodeInstanceForWorkspace e wi w =
            (Inl (OcError (js ''FAILED TO CREATE OPENCODE CLIENT - all ports exhausted'') NoCause),
             w\<lparr> portsTried := portsTried w @ map (\<lambda>k. 3420 + k) [0..<30] \<rparr>)
          \<and> (\<exists>err w'. createSession e rs w = (Inl err, w') \<and> sessionCalls w' = sessionCalls w
                \<and> running w' = running w
                \<and> (\<forall>info w1. ensureWorkspace e rs w = (Inr info, w1) \<longrightarrow>
                      err = OcError (js ''FAILED TO CREATE OPENCODE CLIENT - all ports exhausted'')
                              NoCause)))"
proof -
  have m: "maxInstances = 30" by (simp add: maxInstances_def)
  show ?thesis
    using instance_booted[of j e wi w] instance_fatal[of j e t wi w] instance_exhausted[of e wi w]
      createSession_exhausted[of e rs w]
    unfolding m by blast
qed

lemma busy_mentionsPort:
  "mentionsPort (ErrorObject (Some (js ''Error: Failed to start server on port'')))"
  by (simp add: mentionsPort_def js_def)

lemma NonError_not_port: "\<not> mentionsPort NonError"
  by (simp add: mentionsPort_def)

theorem port_allocation_witness:
  "getOpencodeInstanceForWorkspace demoEnv \<lparr> workspacePath = js ''ws/svelte'', wsRepos = [] \<rparr> emptyWorld =
     (Inr \<lparr> client = \<lparr> clientPort = 3422, clientDirectory = js ''ws/svelte'' \<rparr>, server = 3422 \<rparr>,
      emptyWorld\<lparr> portsTried := [3420, 3421, 3422], running := [3422] \<rparr>) \<and>
   getOpencodeInstanceForWorkspace brokenBootEnv \<lparr> workspacePath = js ''ws/svelte'', wsRepos = [] \<rparr> emptyWorld =
     (Inl (OcError (js ''FAILED TO CREATE OPENCODE CLIENT'') (UnknownException NonError)),
      emptyWorld\<lparr> portsTried := [3420, 3421] \<rparr>) \<and>
   fst (getOpencodeInstanceForWorkspace allBusyEnv \<lparr> workspacePath = js ''ws/svelte'', wsRepos = [] \<rparr> emptyWorld) =
     Inl (OcError (js ''FAILED TO CREATE OPENCODE CLIENT - all ports exhausted'') NoCause) \<and>
   length (portsTried (snd (getOpencodeInstanceForWorkspace allBusyEnv
      \<lparr> workspacePath = js ''ws/svelte'', wsRepos = [] \<rparr> emptyWorld))) = 30"
proof -
  have a: "(2::nat) < 30 \<and> (\<forall>k<2. \<exists>t. boot demoEnv (3420 + k) = Some t \<and> mentionsPort t)
      \<and> boot demoEnv (3420 + 2) = None"
    by (simp add: demoEnv_def busy_mentionsPort)
  have c: "(1::nat) < 30 \<and> (\<forall>k<1. \<exists>t. boot brokenBootEnv (3420 + k) = Some t \<and> mentionsPort t)
      \<and> boot brokenBootEnv (3420 + 1) = Some NonError \<and> \<not> mentionsPort NonError"
    by (simp add: brokenBootEnv_def busy_mentionsPort NonError_not_port)
  have b: "\<forall>k<30. \<exists>t. boot allBusyEnv (3420 + k) = Some t \<and> mentionsPort t"
    by (simp add: allBusyEnv_def busy_mentionsPort)
  have u: "[0..<3] = [0, 1, 2::nat]" "[0..<2] = [0, 1::nat]" by (simp_all add: upt_rec)
  from a port_allocation[where j = 2 and e = demoEnv and w = emptyWorld
      and wi = "\<lparr> workspacePath = js ''ws/svelte'', wsRepos = [] \<rparr>"]
  have 1: "getOpencodeInstanceForWorkspace demoEnv \<lparr> workspacePath = js ''ws/svelte'', wsRepos = [] \<rparr> emptyWorld =
     (Inr \<lparr> client = \<lparr> clientPort = 3422, clientDirectory = js ''ws/svelte'' \<rparr>, server = 3422 \<rparr>,
      emptyWorld\<lparr> portsTried := [3420, 3421, 3422], running := [3422] \<rparr>)"
    by (simp add: u emptyWorld_def)
  from c port_allocation[where j = 1 and e = brokenBootEnv and w = emptyWorld and t = NonError
      and wi = "\<lparr> workspacePath = js ''ws/svelte'', wsRepos = [] \<rparr>"]
  have 3: "getOpencodeInstanceForWorkspace brokenBootEnv \<lparr> workspacePath = js ''ws/svelte'', wsRepos = [] \<rparr> emptyWorld =
     (Inl (OcError (js ''FAILED TO CREATE OPENCODE CLIENT'') (UnknownException NonError)),
      emptyWorld\<lparr> portsTried := [3420, 3421] \<rparr>)"
    by (simp add: u emptyWorld_def)
  from b port_allocation[where e = allBusyEnv and w = emptyWorld
      and wi = "\<lparr> workspacePath = js ''ws/svelte'', wsRepos = [] \<rparr>"]
  have 2: "getOpencodeInstanceForWorkspace allBusyEnv \<lparr> workspacePath = js ''ws/svelte'', wsRepos = [] \<rparr> emptyWorld =
            (Inl (OcError (js ''FAILED TO CREATE OPENCODE CLIENT - all ports exhausted'') NoCause),
             emptyWorld\<lparr> portsTried := portsTried emptyWorld @ map (\<lambda>k. 3420 + k) [0..<30] \<rparr>)"
    by blast
  show ?thesis unfolding 1 2 3 by (simp add: emptyWorld_def)
qed

text \<open>
  What validation itself decides: it passes when the listing cannot be fetched, and
  otherwise fails with the error of the first check the listing contradicts.
\<close>

lemma validateProviderAndModel_fail_open:
  "providerList e = ListRejected \<or> providerList e = ListNoData \<Longrightarrow>
   validateProviderAndModel e pid mid = Inr ()"
  by (auto simp: validateProviderAndModel_def)

lemma findProvider_None: "(findProvider pid ps = None) = (pid \<notin> providerId ` set ps)"
  by (induction ps) auto

lemma findProvider_Some: "findProvider pid ps = Some p \<Longrightarrow> p \<in> set ps \<and> providerId p = pid"
  by (induction ps) (auto split: if_splits)

lemma validateProviderAndModel_fail_closed:
  assumes "providerList e = ListData ps connected"
  shows "(pid \<notin> providerId ` set ps \<longrightarrow>
            validateProviderAndModel e pid mid = Inl (InvalidProviderError pid (map providerId ps))) \<and>
         (pid \<in> providerId ` set ps \<and> pid \<notin> set connected \<longrightarrow>
            validateProviderAndModel e pid mid = Inl (ProviderNotConnectedError pid connected)) \<and>
         (pid \<in> providerId ` set ps \<and> pid \<in> set connected \<longrightarrow>
            (\<exists>p. findProvider pid ps = Some p \<and>
                 validateProviderAndModel e pid mid =
                   (if mid \<in> set (modelIds p) then Inr ()
                    else Inl (InvalidModelError pid mid (modelIds p)))))"
proof (cases "findProvider pid ps")
  case None
  then have "pid \<notin> providerId ` set ps" using findProvider_None[of pid ps] by simp
  with None assms show ?thesis
    by (simp add: validateProviderAndModel_def)
next
  case (Some p)
  then have "pid \<in> providerId ` set ps" using findProvider_None[of pid ps] by simp
  with Some assms show ?thesis
    by (simp add: validateProviderAndModel_def)
qed

lemma otherProvider_instance:
  "getOpencodeInstanceForWorkspace otherProviderEnv wi w =
     (Inr \<lparr> client = \<lparr> clientPort = 3420, clientDirectory = workspacePath wi \<rparr>, server = 3420 \<rparr>,
      w\<lparr> portsTried := portsTried w @ [3420], running := running w @ [3420] \<rparr>)"
  using instance_booted[of 0 otherProviderEnv wi w]
  by (simp add: otherProviderEnv_def maxInstances_def)

lemma otherProvider_workspace:
  "ensureWorkspace otherProviderEnv [js ''svelte''] emptyWorld =
     (Inr \<lparr> workspacePath = js ''ws/svelte'',
            wsRepos = [\<lparr> wrName = js ''svelte'', wrRelativePath = js ''svelte'', wrSpecialNotes = None \<rparr>] \<rparr>,
      \<lparr> dirs = [js ''ws/svelte/svelte'', js ''ws/svelte'', js ''repos/svelte''],
        worktrees = [\<lparr> repoDir = js ''repos/svelte'', targetDir = js ''ws/svelte/svelte'',
                       ref = js ''origin/main'' \<rparr>],
        worktreeCalls = [js ''ws/svelte/svelte''],
        portsTried = [], running = [], closeCalls = [], sessionCalls = 0 \<rparr>)"
  by (simp add: eval_defs otherProviderEnv_def)

lemma otherProvider_validate:
  "validateProviderAndModel otherProviderEnv (provider otherProviderEnv) (model otherProviderEnv)
     = Inl (InvalidProviderError (js ''anthropic'') [js ''openai''])"
  by (simp add: validateProviderAndModel_def otherProviderEnv_def demoEnv_def js_def)

text \<open>
  Claim C2 does not hold of the code. The agent lists the providers and the configured
  one is not among them: \<open>createSession\<close> and \<open>askQuestion\<close> fail with
  \<open>InvalidProviderError\<close>, as claimed, but the server started on port 3420 is still
  running and \<open>server.close()\<close> has not been called. Only the branch for a failed
  \<open>session.create\<close> closes the server.
\<close>

theorem validation_failure_leaves_server_running:
  "createSession otherProviderEnv [js ''svelte''] emptyWorld =
     (Inl (InvalidProviderError (js ''anthropic'') [js ''openai'']),
      \<lparr> dirs = [js ''ws/svelte/svelte'', js ''ws/svelte'', js ''repos/svelte''],
        worktrees = [\<lparr> repoDir = js ''repos/svelte'', targetDir = js ''ws/svelte/svelte'',
                       ref = js ''origin/main'' \<rparr>],
        worktreeCalls = [js ''ws/svelte/svelte''],
        portsTried = [3420], running = [3420], closeCalls = [], sessionCalls = 0 \<rparr>) \<and>
   askQuestion otherProviderEnv [js ''svelte''] emptyWorld =
     (Inl (InvalidProviderError (js ''anthropic'') [js ''openai'']),
      \<lparr> dirs = [js ''ws/svelte/svelte'', js ''ws/svelte'', js ''repos/svelte''],
        worktrees = [\<lparr> repoDir = js ''repos/svelte'', targetDir = js ''ws/svelte/svelte'',
                       ref = js ''origin/main'' \<rparr>],
        worktreeCalls = [js ''ws/svelte/svelte''],
        portsTried = [3420], running = [3420], closeCalls = [], sessionCalls = 0 \<rparr>)"
  by (simp add: createSession_def askQuestion_def otherProvider_workspace otherProvider_instance
      otherProvider_validate)

section \<open>Properties of the event stream\<close>

lemma Stream_takeUntil_alt:
  "Stream_takeUntil p (xs, ex) =
     (case dropWhile (\<lambda>a. \<not> p a) xs of
        [] \<Rightarrow> (takeWhile (\<lambda>a. \<not> p a) xs, ex)
      | y # ys \<Rightarrow> (takeWhile (\<lambda>a. \<not> p a) xs @ [y], Done))"
proof -
  have d: "drop (length (takeWhile (\<lambda>a. \<not> p a) xs)) xs = dropWhile (\<lambda>a. \<not> p a) xs"
    by (simp add: dropWhile_eq_drop)
  show ?thesis
  proof (cases "dropWhile (\<lambda>a. \<not> p a) xs")
    case Nil
    show ?thesis unfolding Stream_takeUntil_def Let_def prod.case d Nil by simp
  next
    case (Cons y ys)
    show ?thesis unfolding Stream_takeUntil_def Let_def prod.case d Cons by simp
  qed
qed

lemma Stream_takeUntil_prefix: "prefix (fst (Stream_takeUntil p (xs, ex))) xs"
proof (cases "dropWhile (\<lambda>a. \<not> p a) xs")
  case Nil
  have "xs = takeWhile (\<lambda>a. \<not> p a) xs @ dropWhile (\<lambda>a. \<not> p a) xs"
    by (rule takeWhile_dropWhile_id[symmetric])
  then have "prefix (takeWhile (\<lambda>a. \<not> p a) xs) xs" by (rule prefixI)
  then show ?thesis unfolding Stream_takeUntil_alt Nil by simp
next
  case (Cons y ys)
  have "takeWhile (\<lambda>a. \<not> p a) xs @ dropWhile (\<lambda>a. \<not> p a) xs = xs"
    by (rule takeWhile_dropWhile_id)
  then have "xs = (takeWhile (\<lambda>a. \<not> p a) xs @ [y]) @ ys" unfolding Cons by simp
  then have "prefix (takeWhile (\<lambda>a. \<not> p a) xs @ [y]) xs" by (rule prefixI)
  then show ?thesis unfolding Stream_takeUntil_alt Cons by simp
qed

lemma Stream_takeUntil_found:
  assumes "list_ex p xs"
  shows "Stream_takeUntil p (xs, ex)
           = (takeWhile (\<lambda>a. \<not> p a) xs @ [hd (dropWhile (\<lambda>a. \<not> p a) xs)], Done)
         \<and> p (hd (dropWhile (\<lambda>a. \<not> p a) xs)) \<and> hd (dropWhile (\<lambda>a. \<not> p a) xs) \<in> set xs"
proof -
  let ?d = "dropWhile (\<lambda>a. \<not> p a) xs"
  from assms have ne: "?d \<noteq> []" by (auto simp: list_ex_iff)
  then obtain y ys where d: "?d = y # ys" by (cases ?d) auto
  have "\<not> \<not> p (hd ?d)" using ne by (rule hd_dropWhile)
  then have py: "p y" unfolding d by simp
  have "y \<in> set ?d" unfolding d by simp
  then have yin: "y \<in> set xs" by (rule set_dropWhileD)
  show ?thesis unfolding Stream_takeUntil_alt d using py yin by simp
qed

lemma Stream_takeUntil_none:
  assumes "\<not> list_ex p xs"
  shows "Stream_takeUntil p (xs, ex) = (xs, ex)"
proof -
  from assms have d: "dropWhile (\<lambda>a. \<not> p a) xs = []" by (auto simp: list_ex_iff)
  from assms have t: "takeWhile (\<lambda>a. \<not> p a) xs = xs" by (auto simp: list_ex_iff)
  show ?thesis unfolding Stream_takeUntil_alt d t by simp
qed

lemma failOnSessionError_Inr: "failOnSessionError x = Inr y \<Longrightarrow> y = x"
  by (simp add: failOnSessionError_def split: if_splits)

lemma mapEffectList_prefix: "prefix (fst (mapEffectList failOnSessionError xs ex)) xs"
proof (induction xs)
  case Nil
  then show ?case by simp
next
  case (Cons x xs)
  show ?case
  proof (cases "failOnSessionError x")
    case (Inl err)
    then show ?thesis by simp
  next
    case (Inr y)
    then have "y = x" by (rule failOnSessionError_Inr)
    with Inr Cons show ?thesis
      by (cases "mapEffectList failOnSessionError xs ex") simp
  qed
qed

lemma failOnSessionError_pass:
  "evType x \<noteq> js ''session.error'' \<Longrightarrow> failOnSessionError x = Inr x"
  by (simp add: failOnSessionError_def)

lemma mapEffectList_no_error:
  "\<not> list_ex (\<lambda>ev. evType ev = js ''session.error'') xs \<Longrightarrow>
   mapEffectList failOnSessionError xs ex = (xs, ex)"
  by (induction xs) (simp_all add: failOnSessionError_pass)

lemma Stream_interruptWhen_prefix: "prefix (fst (Stream_interruptWhen d (xs, ex))) xs"
  by (auto simp: Stream_interruptWhen_def take_is_prefix split: option.splits)

lemma forSession_iff:
  "forSession sid ev = (evSessionID ev = None \<or> evSessionID ev = Some sid)"
  by (simp add: forSession_def split: option.splits)

lemma isIdleOf_forSession: "isIdleOf sid ev \<Longrightarrow> forSession sid ev"
  by (simp add: isIdleOf_def forSession_def)

lemma streamSessionEvents_subscribed:
  "subscribe e = Inr (evs, ex) \<Longrightarrow>
   streamSessionEvents e sid =
     Inr (Stream_takeUntil (isIdleOf sid)
           (filter (forSession sid) evs,
            case ex of Done \<Rightarrow> Done
                     | Failure t \<Rightarrow> Failure (OcError (js ''Event stream error'') (Rejection t))
                     | Pending \<Rightarrow> Pending))"
  by (simp add: streamSessionEvents_def Stream_filter_def Stream_fromAsyncIterable_def)

lemma prefix_list_all: "prefix xs ys \<Longrightarrow> list_all P ys \<Longrightarrow> list_all P xs"
  by (auto simp: prefix_def)

text \<open>
  Claim C7. Once the subscription succeeds, the events of \<open>streamSessionEvents\<close>, and
  those the prompt stream of \<open>streamPrompt\<close> delivers, are a prefix of the subscribed
  events with every event of another session dropped: each delivered event has no
  \<open>sessionID\<close> or the \<open>sessionID\<close> of this session.
\<close>

theorem stream_events_belong_to_session:
  assumes sub: "subscribe e = Inr (evs, ex)"
  shows "\<exists>out ex' ps.
           streamSessionEvents e sid = Inr (out, ex') \<and>
           streamPrompt e sid cleanup = Inr ps \<and>
           prefix out (filter (forSession sid) evs) \<and>
           prefix (fst (psEvents ps)) out \<and>
           list_all (\<lambda>ev. evSessionID ev = None \<or> evSessionID ev = Some sid) out \<and>
           list_all (\<lambda>ev. evSessionID ev = None \<or> evSessionID ev = Some sid) (fst (psEvents ps))"
proof -
  let ?ex = "case ex of Done \<Rightarrow> Done
                     | Failure t \<Rightarrow> Failure (OcError (js ''Event stream error'') (Rejection t))
                     | Pending \<Rightarrow> Pending"
  let ?ok = "\<lambda>ev. evSessionID ev = None \<or> evSessionID ev = Some sid"
  obtain out ex' where t: "Stream_takeUntil (isIdleOf sid) (filter (forSession sid) evs, ?ex) = (out, ex')"
    by (cases "Stream_takeUntil (isIdleOf sid) (filter (forSession sid) evs, ?ex)")
  have sse: "streamSessionEvents e sid = Inr (out, ex')"
    unfolding streamSessionEvents_subscribed[OF sub] t by (rule refl)
  have "prefix (fst (Stream_takeUntil (isIdleOf sid) (filter (forSession sid) evs, ?ex)))
          (filter (forSession sid) evs)"
    by (rule Stream_takeUntil_prefix)
  then have p1: "prefix out (filter (forSession sid) evs)" unfolding t fst_conv .
  have "list_all ?ok (filter (forSession sid) evs)"
    by (simp add: list_all_iff forSession_iff)
  with p1 have a1: "list_all ?ok out" by (rule prefix_list_all)
  obtain mapped ex'' where m: "mapEffectList failOnSessionError out ex' = (mapped, ex'')"
    by (cases "mapEffectList failOnSessionError out ex'")
  have "prefix (fst (mapEffectList failOnSessionError out ex')) out" by (rule mapEffectList_prefix)
  then have p2: "prefix mapped out" unfolding m fst_conv .
  let ?d = "case promptFailure e of None \<Rightarrow> None
              | Some (n, text, t) \<Rightarrow> Some (n, OcError text (Rejection t))"
  obtain fin ex3 where i: "Stream_interruptWhen ?d (mapped, ex'') = (fin, ex3)"
    by (cases "Stream_interruptWhen ?d (mapped, ex'')")
  have sp: "streamPrompt e sid cleanup = Inr \<lparr> psEvents = (fin, ex3), psCleanup = cleanup \<rparr>"
    unfolding streamPrompt_def sse Stream_mapEffect_def sum.case prod.case m i by (rule refl)
  have "prefix (fst (Stream_interruptWhen ?d (mapped, ex''))) mapped"
    by (rule Stream_interruptWhen_prefix)
  then have "prefix fin mapped" unfolding i fst_conv .
  from this p2 have p3: "prefix fin out" by (rule prefix_order.trans)
  from p3 a1 have a2: "list_all ?ok fin" by (rule prefix_list_all)
  have "streamSessionEvents e sid = Inr (out, ex') \<and>
        streamPrompt e sid cleanup = Inr \<lparr> psEvents = (fin, ex3), psCleanup = cleanup \<rparr> \<and>
        prefix out (filter (forSession sid) evs) \<and>
        prefix (fst (psEvents \<lparr> psEvents = (fin, ex3), psCleanup = cleanup \<rparr>)) out \<and>
        list_all ?ok out \<and>
        list_all ?ok (fst (psEvents \<lparr> psEvents = (fin, ex3), psCleanup = cleanup \<rparr>))"
    using sse sp p1 p3 a1 a2 by simp
  then show ?thesis by (intro exI)
qed

text \<open>
  Claim C10. If the subscribed events contain a \<open>session.idle\<close> of this session, the
  stream of \<open>streamSessionEvents\<close> completes, and its last element is that
  \<open>session.idle\<close> event itself, the first of them; unless a \<open>session.error\<close> or a
  failed prompt intervenes, the prompt stream is the same. Conversely, a stream that
  completes while the subscription has not ended has the \<open>session.idle\<close> of this session
  as its last element.
\<close>

theorem stream_ends_with_idle:
  assumes sub: "subscribe e = Inr (evs, ex)"
  shows "(list_ex (isIdleOf sid) evs \<longrightarrow>
           (\<exists>out. streamSessionEvents e sid = Inr (out, Done) \<and> out \<noteq> [] \<and>
                  isIdleOf sid (last out) \<and> last out \<in> set evs \<and>
                  \<not> list_ex (isIdleOf sid) (butlast out) \<and>
                  (promptFailure e = None \<and> \<not> list_ex (\<lambda>ev. evType ev = js ''session.error'') out
                     \<longrightarrow> streamPrompt e sid cleanup
                           = Inr \<lparr> psEvents = (out, Done), psCleanup = cleanup \<rparr>))) \<and>
         (\<forall>out. streamSessionEvents e sid = Inr (out, Done) \<and> ex \<noteq> Done
            \<longrightarrow> out \<noteq> [] \<and> isIdleOf sid (last out))"
proof -
  let ?ex = "case ex of Done \<Rightarrow> Done
                     | Failure t \<Rightarrow> Failure (OcError (js ''Event stream error'') (Rejection t))
                     | Pending \<Rightarrow> Pending"
  let ?f = "filter (forSession sid) evs"
  let ?np = "\<lambda>a. \<not> isIdleOf sid a"
  note sse = streamSessionEvents_subscribed[OF sub, of sid]
  have found: "list_ex (isIdleOf sid) ?f" if "list_ex (isIdleOf sid) evs"
    using that isIdleOf_forSession by (auto simp: list_ex_iff)
  have A: "\<exists>out. streamSessionEvents e sid = Inr (out, Done) \<and> out \<noteq> [] \<and>
                  isIdleOf sid (last out) \<and> last out \<in> set evs \<and>
                  \<not> list_ex (isIdleOf sid) (butlast out) \<and>
                  (promptFailure e = None \<and> \<not> list_ex (\<lambda>ev. evType ev = js ''session.error'') out
                     \<longrightarrow> streamPrompt e sid cleanup
                           = Inr \<lparr> psEvents = (out, Done), psCleanup = cleanup \<rparr>)"
    if idle: "list_ex (isIdleOf sid) ?f"
  proof -
    let ?out = "takeWhile ?np ?f @ [hd (dropWhile ?np ?f)]"
    note tf = Stream_takeUntil_found[OF idle, of ?ex]
    have s: "streamSessionEvents e sid = Inr (?out, Done)" using sse tf by simp
    have "\<not> list_ex (isIdleOf sid) (takeWhile ?np ?f)"
      by (auto simp: list_ex_iff dest: set_takeWhileD)
    moreover have "promptFailure e = None \<and> \<not> list_ex (\<lambda>ev. evType ev = js ''session.error'') ?out
           \<longrightarrow> streamPrompt e sid cleanup = Inr \<lparr> psEvents = (?out, Done), psCleanup = cleanup \<rparr>"
      using s by (auto simp: streamPrompt_def Stream_mapEffect_def mapEffectList_no_error
          Stream_interruptWhen_def)
    ultimately show ?thesis using s tf by auto
  qed
  have B: "out \<noteq> [] \<and> isIdleOf sid (last out)"
    if h: "streamSessionEvents e sid = Inr (out, Done)" "ex \<noteq> Done" for out
  proof (cases "list_ex (isIdleOf sid) ?f")
    case True
    from Stream_takeUntil_found[OF True, of ?ex] sse h(1) show ?thesis by auto
  next
    case False
    from Stream_takeUntil_none[OF False, of ?ex] sse h(1) have "?ex = Done" by simp
    with h(2) show ?thesis by (cases ex) simp_all
  qed
  from A B found show ?thesis by blast
qed

lemma demo_stream:
  "streamSessionEvents streamEnv (js ''ses_1'') =
     Inr ([\<lparr> evType = js ''message.part.updated'', evSessionID = None, evError = None \<rparr>,
           \<lparr> evType = js ''session.idle'', evSessionID = Some (js ''ses_1''), evError = None \<rparr>], Done)"
  by (simp add: streamSessionEvents_def streamEnv_def demoEnv_def demoEvents_def Stream_takeUntil_def
      Stream_filter_def Stream_fromAsyncIterable_def forSession_def isIdleOf_def js_def)

theorem stream_events_belong_to_session_witness:
  "\<exists>out ex' ps.
     streamSessionEvents streamEnv (js ''ses_1'') = Inr (out, ex') \<and>
     streamPrompt streamEnv (js ''ses_1'') None = Inr ps \<and>
     prefix out (filter (forSession (js ''ses_1'')) demoEvents) \<and>
     prefix (fst (psEvents ps)) out \<and>
     list_all (\<lambda>ev. evSessionID ev = None \<or> evSessionID ev = Some (js ''ses_1'')) out \<and>
     list_all (\<lambda>ev. evSessionID ev = None \<or> evSessionID ev = Some (js ''ses_1'')) (fst (psEvents ps))"
proof -
  have "subscribe streamEnv = Inr (demoEvents, Pending)" by (simp add: streamEnv_def)
  from stream_events_belong_to_session[OF this] show ?thesis .
qed

theorem stream_ends_with_idle_witness:
  "list_ex (isIdleOf (js ''ses_1'')) demoEvents \<and>
   (\<exists>out. streamSessionEvents streamEnv (js ''ses_1'') = Inr (out, Done) \<and> out \<noteq> [] \<and>
      last out = \<lparr> evType = js ''session.idle'', evSessionID = Some (js ''ses_1''), evError = None \<rparr> \<and>
      isIdleOf (js ''ses_1'') (last out))"
proof -
  have s: "subscribe streamEnv = Inr (demoEvents, Pending)" by (simp add: streamEnv_def)
  have i: "list_ex (isIdleOf (js ''ses_1'')) demoEvents"
    by (simp add: demoEvents_def isIdleOf_def js_def)
  from stream_ends_with_idle[OF s, of "js ''ses_1''" None] i
  obtain out where "streamSessionEvents streamEnv (js ''ses_1'') = Inr (out, Done)" "out \<noteq> []"
    "isIdleOf (js ''ses_1'') (last out)" by blast
  with i show ?thesis by (auto simp: demo_stream)
qed

end
